theory Spec2Isabelle
  imports Main
begin

section \<open>JavaScript strings\<close>

text \<open>
  A JavaScript string is a sequence of UTF-16 code units. The regular expressions of the
  program carry no \<open>u\<close> flag, so they work on code units too. ASCII literals of the
  source are written \<open>js ''...''\<close>; the Chinese messages are given by their code units.
\<close>

type_synonym jsstring = "nat list"

definition js :: "string \<Rightarrow> jsstring" where
  "js s = map of_char s"

text \<open>\<open>String.prototype.startsWith\<close>, \<open>endsWith\<close> and \<open>includes\<close>.\<close>

definition startsWith :: "jsstring \<Rightarrow> jsstring \<Rightarrow> bool" where
  "startsWith s p = (take (length p) s = p)"

definition endsWith :: "jsstring \<Rightarrow> jsstring \<Rightarrow> bool" where
  "endsWith s p = (length p \<le> length s \<and> drop (length s - length p) s = p)"

fun str_includes :: "jsstring \<Rightarrow> jsstring \<Rightarrow> bool" where
  "str_includes [] p = (p = [])"
| "str_includes (c # cs) p = (startsWith (c # cs) p \<or> str_includes cs p)"

text \<open>
  The line terminators of ECMAScript (LF, CR, LS, PS): the characters that \<open>.\<close> does not
  match without the \<open>s\<close> flag. \<open>String.prototype.trim\<close> strips these and the white space
  characters (TAB, VT, FF, SP, NBSP, ZWNBSP and the Unicode space separators) from both ends.
\<close>

definition is_line_terminator :: "nat \<Rightarrow> bool" where
  "is_line_terminator c = (c = 0x0A \<or> c = 0x0D \<or> c = 0x2028 \<or> c = 0x2029)"

definition is_white_space :: "nat \<Rightarrow> bool" where
  "is_white_space c =
     (c = 0x09 \<or> c = 0x0B \<or> c = 0x0C \<or> c = 0x20 \<or> c = 0xA0 \<or> c = 0x1680 \<or>
      (0x2000 \<le> c \<and> c \<le> 0x200A) \<or> c = 0x202F \<or> c = 0x205F \<or> c = 0x3000 \<or> c = 0xFEFF)"

definition trimmed_char :: "nat \<Rightarrow> bool" where
  "trimmed_char c = (is_white_space c \<or> is_line_terminator c)"

definition trim :: "jsstring \<Rightarrow> jsstring" where
  "trim s = rev (dropWhile trimmed_char (rev (dropWhile trimmed_char s)))"

text \<open>
  Case-insensitive matching (flag \<open>i\<close>, no \<open>u\<close>) compares canonicalised code units:
  the upper-case form when that is one code unit, except that a non-ASCII unit is never
  mapped to an ASCII one. Against the ASCII letters of the patterns below only the two
  ASCII cases of a letter match, which \<open>canonicalize\<close> computes; on a unit from 128 on
  it is the identity, which differs from every ASCII unit as the real canonical form does.
\<close>

definition canonicalize :: "nat \<Rightarrow> nat" where
  "canonicalize c = (if 97 \<le> c \<and> c \<le> 122 then c - 32 else c)"

text \<open>A literal of the pattern, matched case-insensitively at the head of the text;
  the result is the text after the match.\<close>

fun match_ci :: "jsstring \<Rightarrow> jsstring \<Rightarrow> jsstring option" where
  "match_ci [] s = Some s"
| "match_ci (p # ps) [] = None"
| "match_ci (p # ps) (c # cs) =
     (if canonicalize c = canonicalize p then match_ci ps cs else None)"

section \<open>The URL extractor (xml-parser.ts)\<close>

text \<open>
  \<open>const locRegex = /<loc[^>]*>(.*?)<\/loc>/gi\<close>, as the backtracking matcher of
  ECMAScript runs it. A match attempt at one position reads \<open><loc\<close>, then \<open>[^>]*\<close>
  greedily, then \<open>>\<close>, then \<open>(.*?)\<close> lazily up to the first \<open></loc>\<close>; the result
  is the captured group and the text after the match.

  \<open>locRegex_lazy\<close> is \<open>(.*?)<\/loc>\<close>: it first tries the rest of the pattern, and only
  when that fails takes one more character, which must not be a line terminator.
\<close>

fun locRegex_lazy :: "jsstring \<Rightarrow> jsstring \<Rightarrow> (jsstring \<times> jsstring) option" where
  "locRegex_lazy acc [] =
     (case match_ci (js ''</loc>'') [] of Some rest \<Rightarrow> Some (acc, rest) | None \<Rightarrow> None)"
| "locRegex_lazy acc (c # cs) =
     (case match_ci (js ''</loc>'') (c # cs) of
        Some rest \<Rightarrow> Some (acc, rest)
      | None \<Rightarrow> if is_line_terminator c then None else locRegex_lazy (acc @ [c]) cs)"

text \<open>\<open>locRegex_gt\<close> is \<open>>(.*?)<\/loc>\<close>, the pattern after the greedy star.\<close>

fun locRegex_gt :: "jsstring \<Rightarrow> (jsstring \<times> jsstring) option" where
  "locRegex_gt [] = None"
| "locRegex_gt (c # cs) = (if c = 0x3E then locRegex_lazy [] cs else None)"

text \<open>
  \<open>locRegex_greedy\<close> is \<open>[^>]*>(.*?)<\/loc>\<close>: the star takes a character other than
  \<open>>\<close> when there is one and goes on; when the rest fails after that, it backtracks and
  tries the rest of the pattern from where it stands.
\<close>

fun locRegex_greedy :: "jsstring \<Rightarrow> (jsstring \<times> jsstring) option" where
  "locRegex_greedy [] = locRegex_gt []"
| "locRegex_greedy (c # cs) =
     (if c \<noteq> 0x3E then
        (case locRegex_greedy cs of Some m \<Rightarrow> Some m | None \<Rightarrow> locRegex_gt (c # cs))
      else locRegex_gt (c # cs))"

definition locRegex_at :: "jsstring \<Rightarrow> (jsstring \<times> jsstring) option" where
  "locRegex_at s =
     (case match_ci (js ''<loc'') s of None \<Rightarrow> None | Some rest \<Rightarrow> locRegex_greedy rest)"

text \<open>
  \<open>locRegex.exec(xmlContent)\<close> with the \<open>g\<close> flag: the argument is the text from
  \<open>lastIndex\<close> on (the pattern has no anchor and looks at nothing before the position).
  It tries each start position from left to right; a match sets \<open>lastIndex\<close> to its end.
\<close>

fun locRegex_exec :: "jsstring \<Rightarrow> (jsstring \<times> jsstring) option" where
  "locRegex_exec [] = locRegex_at []"
| "locRegex_exec (c # cs) =
     (case locRegex_at (c # cs) of Some m \<Rightarrow> Some m | None \<Rightarrow> locRegex_exec cs)"

lemma match_ci_length: "match_ci p s = Some r \<Longrightarrow> length s = length p + length r"
  by (induction p s rule: match_ci.induct) (auto split: if_splits)

lemma locRegex_lazy_length: "locRegex_lazy acc s = Some (cap, r) \<Longrightarrow> length r < length s"
proof (induction acc s rule: locRegex_lazy.induct)
  case (1 acc)
  then show ?case by (simp add: js_def)
next
  case (2 acc c cs)
  show ?case
  proof (cases "match_ci (js ''</loc>'') (c # cs)")
    case None
    with 2 show ?thesis by (auto split: if_splits)
  next
    case (Some rest)
    with 2 have "r = rest" by simp
    moreover from Some have "length (c # cs) = length (js ''</loc>'') + length rest"
      by (rule match_ci_length)
    ultimately show ?thesis by (simp add: js_def)
  qed
qed

lemma locRegex_gt_length: "locRegex_gt s = Some (cap, r) \<Longrightarrow> length r < length s"
  by (cases s) (auto split: if_splits dest: locRegex_lazy_length)

lemma locRegex_greedy_length: "locRegex_greedy s = Some (cap, r) \<Longrightarrow> length r < length s"
proof (induction s)
  case Nil
  then show ?case by simp
next
  case (Cons c cs)
  then show ?case
    by (cases "locRegex_greedy cs") (auto split: if_splits dest: locRegex_lazy_length)
qed

lemma locRegex_at_length: "locRegex_at s = Some (cap, r) \<Longrightarrow> length r < length s"
  by (auto simp: locRegex_at_def split: option.splits
      dest!: match_ci_length locRegex_greedy_length)

lemma locRegex_exec_length: "locRegex_exec s = Some (cap, r) \<Longrightarrow> length r < length s"
proof (induction s)
  case Nil
  then show ?case by (auto dest: locRegex_at_length)
next
  case (Cons c cs)
  then show ?case
    by (cases "locRegex_at (c # cs)") (auto dest: locRegex_at_length)
qed

text \<open>
  \<open>extractURLs\<close>: the \<open>while ((match = locRegex.exec(xmlContent)) !== null)\<close> loop with
  the array \<open>urls\<close> it pushes to. No operation of the \<open>try\<close> block throws on a string,
  so the \<open>catch\<close> branch (which returns \<open>[]\<close>) is never taken and the function is total.
\<close>

function extractURLs_loop :: "jsstring \<Rightarrow> jsstring list \<Rightarrow> jsstring list" where
  "extractURLs_loop s urls =
     (case locRegex_exec s of
        None \<Rightarrow> urls
      | Some (cap, rest) \<Rightarrow>
          (let url = trim cap in
           if url \<noteq> [] \<and> (startsWith url (js ''http://'') \<or> startsWith url (js ''https://''))
           then extractURLs_loop rest (urls @ [url])
           else extractURLs_loop rest urls))"
  by pat_completeness auto
termination
  by (relation "measure (\<lambda>(s, urls). length s)") (auto dest: locRegex_exec_length)

definition extractURLs :: "jsstring \<Rightarrow> jsstring list" where
  "extractURLs xmlContent = extractURLs_loop xmlContent []"

section \<open>The diff engine (rss-manager.ts)\<close>

text \<open>\<open>Array.prototype.includes\<close> on an array of strings.\<close>

fun array_includes :: "jsstring list \<Rightarrow> jsstring \<Rightarrow> bool" where
  "array_includes [] x = False"
| "array_includes (y # ys) x = (y = x \<or> array_includes ys x)"

text \<open>\<open>compareSitemaps\<close>; as in \<open>extractURLs\<close>, nothing in its \<open>try\<close> block throws.\<close>

definition compareSitemaps :: "jsstring \<Rightarrow> jsstring \<Rightarrow> jsstring list" where
  "compareSitemaps currentContent oldContent =
     (let currentUrls = extractURLs currentContent;
          oldUrls = extractURLs oldContent
      in filter (\<lambda>url. \<not> array_includes oldUrls url) currentUrls)"

section \<open>The environment of the worker\<close>

text \<open>
  What the program takes from its platform is a parameter of the model, gathered in the
  record \<open>env\<close>: the URL parser (\<open>new URL(url)\<close>, which throws on a string that is not an
  absolute URL), the calendar day, the network behind \<open>fetch\<close>, the errors of the
  key-value store, \<open>JSON.parse\<close> and \<open>JSON.stringify\<close>, the error raised by calling a
  method that a value does not have, and \<open>String.prototype.toLowerCase\<close>.
  A thrown JavaScript error is the value \<open>JsError\<close> with its message.
\<close>

datatype js_error = JsError (message: jsstring)

text \<open>The numbers of JSON values are IEEE doubles; the program never looks inside one.\<close>

typedecl number

datatype json =
  JNull | JBool bool | JNum number | JStr jsstring | JArr "json list"
  | JObj "(jsstring \<times> json) list"

record url =
  hostname :: jsstring
  pathname :: jsstring

text \<open>
  A response of \<open>fetch\<close>: the fields the program reads, and the outcome of reading the
  body as text, directly (\<open>response.text()\<close>) or through the gzip decompression stream.
\<close>

record response =
  ok :: bool
  status :: nat
  statusText :: jsstring
  has_body :: bool
  body_text :: "js_error + jsstring"
  gunzipped_text :: "js_error + jsstring"

record env =
  parse_url :: "jsstring \<Rightarrow> js_error + url"
  today :: jsstring
  network :: "jsstring \<Rightarrow> js_error + response"
  get_error :: "jsstring \<Rightarrow> js_error option"
  put_error :: "jsstring \<Rightarrow> jsstring \<Rightarrow> js_error option"
  json_parse :: "jsstring \<Rightarrow> js_error + json"
  json_stringify :: "json \<Rightarrow> jsstring"
  no_method :: "json \<Rightarrow> js_error"
  toLowerCase :: "jsstring \<Rightarrow> jsstring"

text \<open>
  The state that the program changes: the key-value namespace, and the log of the URLs
  requested from the network (so that "no fetch occurs" can be stated).
\<close>

record world =
  kv :: "jsstring \<rightharpoonup> jsstring"
  requests :: "jsstring list"

text \<open>
  An \<open>async\<close> computation takes the state and returns the new state with either the
  thrown error or the value. \<open>await\<close> sequences two of them, an error of the first
  skipping the second; \<open>try_catch\<close> hands an error to the handler, in the state reached
  when it was thrown.
\<close>

type_synonym 'a async = "world \<Rightarrow> world \<times> (js_error + 'a)"

definition resolve :: "'a \<Rightarrow> 'a async" where
  "resolve x w = (w, Inr x)"

definition of_result :: "js_error + 'a \<Rightarrow> 'a async" where
  "of_result r w = (w, r)"

definition await :: "'a async \<Rightarrow> ('a \<Rightarrow> 'b async) \<Rightarrow> 'b async" where
  "await m f w = (case m w of (w', Inl e) \<Rightarrow> (w', Inl e) | (w', Inr x) \<Rightarrow> f x w')"

definition try_catch :: "'a async \<Rightarrow> (js_error \<Rightarrow> 'a async) \<Rightarrow> 'a async" where
  "try_catch m h w = (case m w of (w', Inl e) \<Rightarrow> h e w' | (w', Inr x) \<Rightarrow> (w', Inr x))"

text \<open>\<open>this.kv.get(key)\<close> and \<open>this.kv.put(key, value)\<close>; a rejected call changes nothing.\<close>

definition kv_get :: "env \<Rightarrow> jsstring \<Rightarrow> jsstring option async" where
  "kv_get env key w =
     (case get_error env key of Some e \<Rightarrow> (w, Inl e) | None \<Rightarrow> (w, Inr (kv w key)))"

definition kv_put :: "env \<Rightarrow> jsstring \<Rightarrow> jsstring \<Rightarrow> unit async" where
  "kv_put env key v w =
     (case put_error env key v of
        Some e \<Rightarrow> (w, Inl e)
      | None \<Rightarrow> (w\<lparr>kv := (kv w)(key \<mapsto> v)\<rparr>, Inr ()))"

text \<open>The truth value of a \<open>string | null\<close>: \<open>null\<close> and the empty string are falsy.\<close>

fun truthy :: "jsstring option \<Rightarrow> bool" where
  "truthy None = False"
| "truthy (Some s) = (s \<noteq> [])"

text \<open>A non-negative integer in a template literal: its decimal digits.\<close>

fun decimal :: "nat \<Rightarrow> jsstring" where
  "decimal n = (if n < 10 then [48 + n] else decimal (n div 10) @ [48 + n mod 10])"

declare decimal.simps [simp del]

section \<open>The RSS manager (rss-manager.ts)\<close>

record RemoveFeedResult =
  success :: bool
  errorMsg :: jsstring

record DownloadResult = RemoveFeedResult +
  datedFile :: "jsstring option"
  newUrls :: "jsstring list"

text \<open>The messages of the source, as code units (they are Chinese text, in part).\<close>

definition msg_updated_today_not_sent :: jsstring where
  "msg_updated_today_not_sent =
     [20170, 22825, 24050, 32463, 26356, 26032, 36807, 27492] @ js ''sitemap, '' @
     [20294, 27809, 21457, 36865]"

definition msg_updated_today :: jsstring where
  "msg_updated_today = [20170, 22825, 24050, 32463, 26356, 26032, 36807, 27492] @ js ''sitemap''"

definition msg_download_failed :: jsstring where
  "msg_download_failed = [19979, 36733, 22833, 36133] @ js '': ''"

definition msg_added :: jsstring where
  "msg_added = [25104, 21151, 28155, 21152]"

definition msg_existing_updated :: jsstring where
  "msg_existing_updated = [24050, 23384, 22312, 30340] @ js ''feed'' @ [26356, 26032, 25104, 21151]"

definition msg_add_failed :: jsstring where
  "msg_add_failed = [28155, 21152, 22833, 36133] @ js '': ''"

definition msg_not_found :: jsstring where
  "msg_not_found = [35813] @ js ''RSS'' @ [35746, 38405, 19981, 23384, 22312]"

definition msg_remove_failed :: jsstring where
  "msg_remove_failed = [21024, 38500, 22833, 36133] @ js '': ''"

definition feedsKey :: jsstring where
  "feedsKey = js ''rss_feeds''"

text \<open>
  \<open>getFeeds\<close>. The value it returns is whatever \<open>JSON.parse\<close> gives (the declared type
  \<open>string[]\<close> is not checked at run time); an error of the read or of the parse is caught.
\<close>

definition getFeeds :: "env \<Rightarrow> json async" where
  "getFeeds env =
     try_catch
       (await (kv_get env feedsKey) (\<lambda>feedsJson.
          if truthy feedsJson
          then (case feedsJson of Some s \<Rightarrow> of_result (json_parse env s) | None \<Rightarrow> resolve (JArr []))
          else resolve (JArr [])))
       (\<lambda>error. resolve (JArr []))"

text \<open>
  The download of lines 94 to 122, as a function of what the network answers: \<open>fetch\<close>
  may reject, the status may not be ok, a \<open>.gz\<close> URL needs a body and a valid gzip stream.
  \<open>fetch_sitemap\<close> performs it and logs the request.
\<close>

definition fetch_text :: "env \<Rightarrow> jsstring \<Rightarrow> js_error + jsstring" where
  "fetch_text env url =
     (case network env url of
        Inl e \<Rightarrow> Inl e
      | Inr response \<Rightarrow>
          if \<not> ok response then
            Inl (JsError (js ''HTTP '' @ decimal (status response) @ js '': '' @
                          statusText response))
          else if endsWith url (js ''.gz'') then
            (if \<not> has_body response
             then Inl (JsError (js ''Response body is null, cannot decompress.''))
             else gunzipped_text response)
          else body_text response)"

definition fetch_sitemap :: "env \<Rightarrow> jsstring \<Rightarrow> jsstring async" where
  "fetch_sitemap env url w = (w\<lparr>requests := requests w @ [url]\<rparr>, fetch_text env url)"

text \<open>
  \<open>downloadSitemap\<close>: the body of its \<open>try\<close> block, then the function with its \<open>catch\<close>.
  Every value the block can throw is an \<open>Error\<close>, so the message of the result is
  \<open>error.message\<close> after the prefix.
\<close>

definition downloadSitemap_try :: "env \<Rightarrow> jsstring \<Rightarrow> bool \<Rightarrow> DownloadResult async" where
  "downloadSitemap_try env url forceDownload =
     await (of_result (parse_url env url)) (\<lambda>u.
       let domain = hostname u;
           lastUpdateKey = js ''last_update_'' @ domain
       in
       await (kv_get env lastUpdateKey) (\<lambda>lastUpdate.
         if \<not> forceDownload \<and> lastUpdate = Some (today env) then
           await (kv_get env (js ''sitemap_current_'' @ domain)) (\<lambda>currentContent.
           await (kv_get env (js ''sitemap_latest_'' @ domain)) (\<lambda>latestContent.
             (case (currentContent, latestContent) of
                (Some c, Some l) \<Rightarrow>
                  if c \<noteq> [] \<and> l \<noteq> [] then
                    resolve \<lparr>success = True, errorMsg = msg_updated_today_not_sent,
                             datedFile = None, newUrls = compareSitemaps c l\<rparr>
                  else
                    resolve \<lparr>success = True, errorMsg = msg_updated_today,
                             datedFile = None, newUrls = []\<rparr>
              | _ \<Rightarrow>
                  resolve \<lparr>success = True, errorMsg = msg_updated_today,
                           datedFile = None, newUrls = []\<rparr>)))
         else
           await (fetch_sitemap env url) (\<lambda>newContent.
           await (kv_get env (js ''sitemap_current_'' @ domain)) (\<lambda>currentContent.
           await
             (case currentContent of
                Some c \<Rightarrow>
                  if c \<noteq> [] then
                    (let newUrls = compareSitemaps newContent c in
                     await (kv_put env (js ''sitemap_latest_'' @ domain) c) (\<lambda>_.
                       resolve newUrls))
                  else resolve []
              | None \<Rightarrow> resolve [])
             (\<lambda>newUrls.
           await (kv_put env (js ''sitemap_current_'' @ domain) newContent) (\<lambda>_.
           await (kv_put env (js ''sitemap_dated_'' @ domain @ js ''_'' @ today env) newContent) (\<lambda>_.
           await (kv_put env lastUpdateKey (today env)) (\<lambda>_.
             resolve \<lparr>success = True, errorMsg = [],
                      datedFile = Some (js ''sitemap_dated_'' @ domain @ js ''_'' @ today env),
                      newUrls = newUrls\<rparr>))))))))"

definition downloadSitemap :: "env \<Rightarrow> jsstring \<Rightarrow> bool \<Rightarrow> DownloadResult async" where
  "downloadSitemap env url forceDownload =
     try_catch (downloadSitemap_try env url forceDownload) (\<lambda>error.
       resolve \<lparr>success = False, errorMsg = msg_download_failed @ message error,
                datedFile = None, newUrls = []\<rparr>)"

text \<open>
  The array methods that \<open>addFeed\<close> and \<open>removeFeed\<close> call on the value of \<open>getFeeds\<close>.
  On an array, \<open>includes\<close> and \<open>indexOf\<close> find an element equal to the string; a string
  has \<open>includes\<close> (the substring test) but neither \<open>push\<close> nor \<open>splice\<close>; any other value
  has none of them and the call throws.
\<close>

definition feeds_includes :: "env \<Rightarrow> json \<Rightarrow> jsstring \<Rightarrow> js_error + bool" where
  "feeds_includes env feeds url =
     (case feeds of
        JArr xs \<Rightarrow> Inr (JStr url \<in> set xs)
      | JStr s \<Rightarrow> Inr (str_includes s url)
      | _ \<Rightarrow> Inl (no_method env feeds))"

definition feeds_push :: "env \<Rightarrow> json \<Rightarrow> jsstring \<Rightarrow> js_error + json" where
  "feeds_push env feeds url =
     (case feeds of JArr xs \<Rightarrow> Inr (JArr (xs @ [JStr url])) | _ \<Rightarrow> Inl (no_method env feeds))"

definition feeds_splice :: "env \<Rightarrow> json \<Rightarrow> jsstring \<Rightarrow> js_error + json" where
  "feeds_splice env feeds url =
     (case feeds of JArr xs \<Rightarrow> Inr (JArr (remove1 (JStr url) xs)) | _ \<Rightarrow> Inl (no_method env feeds))"

definition addFeed :: "env \<Rightarrow> jsstring \<Rightarrow> DownloadResult async" where
  "addFeed env url =
     try_catch
       (await (getFeeds env) (\<lambda>feeds.
        await (of_result (feeds_includes env feeds url)) (\<lambda>present.
          if \<not> present then
            await (downloadSitemap env url False) (\<lambda>result.
              if \<not> success result then resolve result
              else
                await (of_result (feeds_push env feeds url)) (\<lambda>feeds'.
                await (kv_put env feedsKey (json_stringify env feeds')) (\<lambda>_.
                  resolve (result\<lparr>errorMsg :=
                    if errorMsg result \<noteq> [] then errorMsg result else msg_added\<rparr>))))
          else
            await (downloadSitemap env url False) (\<lambda>result.
              if \<not> success result then resolve result
              else resolve (result\<lparr>errorMsg := msg_existing_updated\<rparr>)))))
       (\<lambda>error.
          resolve \<lparr>success = False, errorMsg = msg_add_failed @ message error,
                   datedFile = None, newUrls = []\<rparr>)"

definition removeFeed :: "env \<Rightarrow> jsstring \<Rightarrow> RemoveFeedResult async" where
  "removeFeed env url =
     try_catch
       (await (getFeeds env) (\<lambda>feeds.
        await (of_result (feeds_includes env feeds url)) (\<lambda>present.
          if \<not> present then resolve \<lparr>success = False, errorMsg = msg_not_found\<rparr>
          else
            await (of_result (feeds_splice env feeds url)) (\<lambda>feeds'.
            await (kv_put env feedsKey (json_stringify env feeds')) (\<lambda>_.
              resolve \<lparr>success = True, errorMsg = []\<rparr>)))))
       (\<lambda>error. resolve \<lparr>success = False, errorMsg = msg_remove_failed @ message error\<rparr>)"

section \<open>The keyword statistics (telegram-bot.ts)\<close>

text \<open>\<open>String.prototype.split\<close> with a one-character separator.\<close>

fun split_on :: "nat \<Rightarrow> jsstring \<Rightarrow> jsstring list" where
  "split_on sep [] = [[]]"
| "split_on sep (c # cs) =
     (if c = sep then [] # split_on sep cs
      else (case split_on sep cs of seg # segs \<Rightarrow> (c # seg) # segs | [] \<Rightarrow> [[c]]))"

text \<open>\<open>/^\d+$/\<close> and \<open>/^(index|page|post|article|news|blog)$/i\<close> on a segment.\<close>

definition all_digits :: "jsstring \<Rightarrow> bool" where
  "all_digits s = (s \<noteq> [] \<and> list_all (\<lambda>c. 48 \<le> c \<and> c \<le> 57) s)"

definition stopwords :: "jsstring list" where
  "stopwords = [js ''index'', js ''page'', js ''post'', js ''article'', js ''news'', js ''blog'']"

definition is_stopword :: "jsstring \<Rightarrow> bool" where
  "is_stopword s = list_ex (\<lambda>w. match_ci w s = Some []) stopwords"

text \<open>
  \<open>keywordCounts\<close> is a \<open>Map<string, number>\<close>: its entries in insertion order.
  \<open>map_set\<close> overwrites the value of a key that is there and appends a new key.
\<close>

fun map_get :: "(jsstring \<times> nat) list \<Rightarrow> jsstring \<Rightarrow> nat option" where
  "map_get [] k = None"
| "map_get ((k', v) # m) k = (if k' = k then Some v else map_get m k)"

fun map_set :: "(jsstring \<times> nat) list \<Rightarrow> jsstring \<Rightarrow> nat \<Rightarrow> (jsstring \<times> nat) list" where
  "map_set [] k v = [(k, v)]"
| "map_set ((k', v') # m) k v = (if k' = k then (k', v) # m else (k', v') # map_set m k v)"

record KeywordStat =
  keyword :: jsstring
  count :: nat

text \<open>The body of the inner loop, for one segment.\<close>

definition count_segment ::
  "env \<Rightarrow> jsstring \<Rightarrow> (jsstring \<times> nat) list \<Rightarrow> (jsstring \<times> nat) list" where
  "count_segment env segment keywordCounts =
     (if length segment > 2 \<and> \<not> all_digits segment \<and> 46 \<notin> set segment \<and>
         \<not> is_stopword segment
      then
        (let cleanSegment = toLowerCase env (filter (\<lambda>c. c \<noteq> 45) segment) in
         if length cleanSegment > 2
         then map_set keywordCounts cleanSegment
                ((case map_get keywordCounts cleanSegment of None \<Rightarrow> 0 | Some n \<Rightarrow> n) + 1)
         else keywordCounts)
      else keywordCounts)"

text \<open>The body of the outer loop, for one URL; a URL that does not parse is skipped.\<close>

definition count_url ::
  "env \<Rightarrow> jsstring \<Rightarrow> (jsstring \<times> nat) list \<Rightarrow> (jsstring \<times> nat) list" where
  "count_url env url keywordCounts =
     (case parse_url env url of
        Inl error \<Rightarrow> keywordCounts
      | Inr urlObj \<Rightarrow>
          (let segments = filter (\<lambda>segment. length segment > 2) (split_on 47 (pathname urlObj))
           in fold (count_segment env) segments keywordCounts))"

text \<open>
  \<open>extractKeywordsWithCount\<close>. \<open>Array.prototype.sort\<close> is stable, and so is \<open>sort_key\<close>;
  the comparison \<open>b.count - a.count\<close> orders by descending count.
\<close>

definition extractKeywordsWithCount :: "env \<Rightarrow> jsstring list \<Rightarrow> KeywordStat list" where
  "extractKeywordsWithCount env urls =
     (let keywordCounts = fold (count_url env) urls []
      in take 10
           (sort_key (\<lambda>stat. - int (count stat))
              (map (\<lambda>(k, n). \<lparr>keyword = k, count = n\<rparr>) keywordCounts)))"

section \<open>The extraction, as the specification words it\<close>

text \<open>
  The notions below are not code of the program: they state what the scan is to find, and
  the extractor is compared with them. \<open>ci_equal\<close> is equality up to the case of ASCII
  letters, \<open>http_url\<close> the test on a trimmed value, and \<open>locRegex_matches\<close> the captured
  groups of the successive matches of the expression, in the order of the text.
\<close>

definition ci_equal :: "jsstring \<Rightarrow> jsstring \<Rightarrow> bool" where
  "ci_equal a b = (map canonicalize a = map canonicalize b)"

definition http_url :: "jsstring \<Rightarrow> bool" where
  "http_url u = (u \<noteq> [] \<and> (startsWith u (js ''http://'') \<or> startsWith u (js ''https://'')))"

function locRegex_matches :: "jsstring \<Rightarrow> jsstring list" where
  "locRegex_matches s =
     (case locRegex_exec s of None \<Rightarrow> [] | Some (cap, rest) \<Rightarrow> cap # locRegex_matches rest)"
  by pat_completeness auto
termination
  by (relation "measure length") (auto dest: locRegex_exec_length)

declare extractURLs_loop.simps [simp del] locRegex_matches.simps [simp del]

text \<open>
  \<open>loc_delimited s pre cap post\<close>: in the text \<open>s\<close>, after \<open>pre\<close>, stands an opening
  tag \<open><loc\<close> (in any case) with attributes up to its \<open>>\<close>, then \<open>cap\<close>, which holds no
  line terminator, then a closing tag \<open></loc>\<close> (in any case), then \<open>post\<close>; and that
  closing tag is the first one after the opening tag: none begins inside \<open>cap\<close>.
\<close>

definition loc_delimited :: "jsstring \<Rightarrow> jsstring \<Rightarrow> jsstring \<Rightarrow> jsstring \<Rightarrow> bool" where
  "loc_delimited s pre cap post =
     (\<exists>otag a ctag. s = pre @ otag @ a @ [0x3E] @ cap @ ctag @ post \<and>
        ci_equal otag (js ''<loc'') \<and> 0x3E \<notin> set a \<and> ci_equal ctag (js ''</loc>'') \<and>
        (\<forall>x\<in>set cap. \<not> is_line_terminator x) \<and>
        (\<forall>n<length cap. match_ci (js ''</loc>'') (drop n (cap @ ctag @ post)) = None))"

text \<open>\<open>no_open_tag s\<close>: nowhere in \<open>s\<close> do the four characters \<open><loc\<close> begin, in any case.\<close>

fun no_open_tag :: "jsstring \<Rightarrow> bool" where
  "no_open_tag [] = True"
| "no_open_tag (c # cs) = (match_ci (js ''<loc'') (c # cs) = None \<and> no_open_tag cs)"

text \<open>
  A sitemap entry as it is written in a document: the text that leads up to it (other
  tags, white space), the opening tag and its attributes, the value, and the closing tag.
  \<open>plain_entry\<close> holds of an entry whose value stands on one line and holds no \<open><\<close>.
  \<open>render_broken\<close> writes an entry whose value goes on after a line terminator \<open>n\<close>.
\<close>

record loc_entry =
  leading :: jsstring
  open_tag :: jsstring
  attributes :: jsstring
  content :: jsstring
  close_tag :: jsstring

definition render_entry :: "loc_entry \<Rightarrow> jsstring" where
  "render_entry e = leading e @ open_tag e @ attributes e @ [62] @ content e @ close_tag e"

definition plain_entry :: "loc_entry \<Rightarrow> bool" where
  "plain_entry e =
     (no_open_tag (leading e) \<and> ci_equal (open_tag e) (js ''<loc'') \<and> 62 \<notin> set (attributes e) \<and>
      (\<forall>c\<in>set (content e). c \<noteq> 60 \<and> \<not> is_line_terminator c) \<and>
      ci_equal (close_tag e) (js ''</loc>''))"

definition render_broken :: "loc_entry \<Rightarrow> nat \<Rightarrow> jsstring \<Rightarrow> jsstring" where
  "render_broken e n brk =
     leading e @ open_tag e @ attributes e @ [62] @ content e @ [n] @ brk @ close_tag e"

section \<open>Notions for the statements about the store\<close>

text \<open>
  \<open>rotated env d body m\<close> is the store \<open>m\<close> after a complete rotation for the domain
  \<open>d\<close>: a non-empty \<open>current\<close> is copied to \<open>latest\<close>, and \<open>body\<close> is written to
  \<open>current\<close> and to the dated key of the day, and the day to the marker.
  \<open>diff_against body c\<close> is the diff of \<open>body\<close> with the stored snapshot \<open>c\<close>, empty
  when there is none.
\<close>

definition rotated ::
  "env \<Rightarrow> jsstring \<Rightarrow> jsstring \<Rightarrow> (jsstring \<rightharpoonup> jsstring) \<Rightarrow> (jsstring \<rightharpoonup> jsstring)" where
  "rotated env d body m =
     (let m1 = (case m (js ''sitemap_current_'' @ d) of
                  Some c \<Rightarrow> if c \<noteq> [] then m(js ''sitemap_latest_'' @ d \<mapsto> c) else m
                | None \<Rightarrow> m)
      in m1(js ''sitemap_current_'' @ d \<mapsto> body,
            js ''sitemap_dated_'' @ d @ js ''_'' @ today env \<mapsto> body,
            js ''last_update_'' @ d \<mapsto> today env))"

definition diff_against :: "jsstring \<Rightarrow> jsstring option \<Rightarrow> jsstring list" where
  "diff_against body c = (if truthy c then compareSitemaps body (the c) else [])"

text \<open>
  \<open>rotation_steps env d body m\<close> lists the stores that the writes of a rotation go
  through, in their order: the store before, after the write of \<open>latest\<close> (when there is
  one), of \<open>current\<close>, of the dated key, and of the marker. The last is \<open>rotated\<close>.
\<close>

definition rotation_steps ::
  "env \<Rightarrow> jsstring \<Rightarrow> jsstring \<Rightarrow> (jsstring \<rightharpoonup> jsstring) \<Rightarrow> (jsstring \<rightharpoonup> jsstring) list" where
  "rotation_steps env d body m =
     (let m1 = (case m (js ''sitemap_current_'' @ d) of
                  Some c \<Rightarrow> if c \<noteq> [] then m(js ''sitemap_latest_'' @ d \<mapsto> c) else m
                | None \<Rightarrow> m);
          m2 = m1(js ''sitemap_current_'' @ d \<mapsto> body);
          m3 = m2(js ''sitemap_dated_'' @ d @ js ''_'' @ today env \<mapsto> body);
          m4 = m3(js ''last_update_'' @ d \<mapsto> today env)
      in [m, m1, m2, m3, m4])"

text \<open>
  The two branches of the body of \<open>downloadSitemap\<close>, under names of their own for the
  proofs: what it does when the day's update is already there, and what it does with a
  newly fetched body.
\<close>

definition throttle_branch :: "env \<Rightarrow> jsstring \<Rightarrow> DownloadResult async" where
  "throttle_branch env domain =
     await (kv_get env (js ''sitemap_current_'' @ domain)) (\<lambda>currentContent.
     await (kv_get env (js ''sitemap_latest_'' @ domain)) (\<lambda>latestContent.
       (case (currentContent, latestContent) of
          (Some c, Some l) \<Rightarrow>
            if c \<noteq> [] \<and> l \<noteq> [] then
              resolve \<lparr>success = True, errorMsg = msg_updated_today_not_sent,
                       datedFile = None, newUrls = compareSitemaps c l\<rparr>
            else
              resolve \<lparr>success = True, errorMsg = msg_updated_today,
                       datedFile = None, newUrls = []\<rparr>
        | _ \<Rightarrow>
            resolve \<lparr>success = True, errorMsg = msg_updated_today,
                     datedFile = None, newUrls = []\<rparr>)))"

definition store_branch :: "env \<Rightarrow> jsstring \<Rightarrow> jsstring \<Rightarrow> DownloadResult async" where
  "store_branch env domain =
     (\<lambda>newContent.
        await (kv_get env (js ''sitemap_current_'' @ domain)) (\<lambda>currentContent.
        await
          (case currentContent of
             Some c \<Rightarrow>
               if c \<noteq> [] then
                 await (kv_put env (js ''sitemap_latest_'' @ domain) c) (\<lambda>_.
                   resolve (compareSitemaps newContent c))
               else resolve []
           | None \<Rightarrow> resolve [])
          (\<lambda>newUrls.
        await (kv_put env (js ''sitemap_current_'' @ domain) newContent) (\<lambda>_.
        await (kv_put env (js ''sitemap_dated_'' @ domain @ js ''_'' @ today env) newContent) (\<lambda>_.
        await (kv_put env (js ''last_update_'' @ domain) (today env)) (\<lambda>_.
          resolve \<lparr>success = True, errorMsg = [],
                   datedFile = Some (js ''sitemap_dated_'' @ domain @ js ''_'' @ today env),
                   newUrls = newUrls\<rparr>))))))"

text \<open>
  \<open>keeps g m\<close>: the computation \<open>m\<close> never changes the observation \<open>g\<close> of the state.
  \<open>yields P m\<close>: every value that \<open>m\<close> returns satisfies \<open>P\<close>.
\<close>

definition keeps :: "(world \<Rightarrow> 'c) \<Rightarrow> 'a async \<Rightarrow> bool" where
  "keeps g m = (\<forall>w. g (fst (m w)) = g w)"

definition yields :: "('a \<Rightarrow> bool) \<Rightarrow> 'a async \<Rightarrow> bool" where
  "yields P m = (\<forall>w w' x. m w = (w', Inr x) \<longrightarrow> P x)"

text \<open>
  \<open>latest_nonempty m\<close>: no \<open>latest\<close> snapshot of the store \<open>m\<close> is the empty string.
  It holds of the empty store and the program keeps it, so it holds of every store that
  the program has written. \<open>maintains I m\<close>: the computation \<open>m\<close> keeps the property
  \<open>I\<close> of the state. \<open>failure_outcome e\<close> is the result that the \<open>catch\<close> of
  \<open>downloadSitemap\<close> makes of the error \<open>e\<close>.
\<close>

definition latest_nonempty :: "(jsstring \<rightharpoonup> jsstring) \<Rightarrow> bool" where
  "latest_nonempty m = (\<forall>d. m (js ''sitemap_latest_'' @ d) \<noteq> Some [])"

definition maintains :: "(world \<Rightarrow> bool) \<Rightarrow> 'a async \<Rightarrow> bool" where
  "maintains I m = (\<forall>w. I w \<longrightarrow> I (fst (m w)))"

definition failure_outcome :: "js_error \<Rightarrow> DownloadResult" where
  "failure_outcome e =
     \<lparr>success = False, errorMsg = msg_download_failed @ message e,
      datedFile = None, newUrls = []\<rparr>"

section \<open>Notions for the statements about the keyword statistics\<close>

text \<open>
  The keyword of a segment is its lower-cased form with the hyphens stripped.
  \<open>kept_segment\<close> is the specification's test on a segment, its four conditions and no
  other: longer than two characters, not purely numeric, without a \<open>.\<close>, not a stopword.
  \<open>spec_keywords\<close> is the list of the keywords that the specification counts for a list
  of URLs: those of the kept segments of the paths of the URLs that parse.
\<close>

definition keyword_of :: "env \<Rightarrow> jsstring \<Rightarrow> jsstring" where
  "keyword_of env segment = toLowerCase env (filter (\<lambda>c. c \<noteq> 45) segment)"

definition kept_segment :: "jsstring \<Rightarrow> bool" where
  "kept_segment segment =
     (2 < length segment \<and> \<not> all_digits segment \<and> 46 \<notin> set segment \<and>
      \<not> is_stopword segment)"

definition url_spec_keywords :: "env \<Rightarrow> jsstring \<Rightarrow> jsstring list" where
  "url_spec_keywords env url =
     (case parse_url env url of
        Inl e \<Rightarrow> []
      | Inr u \<Rightarrow> map (keyword_of env) (filter kept_segment (split_on 47 (pathname u))))"

definition spec_keywords :: "env \<Rightarrow> jsstring list \<Rightarrow> jsstring list" where
  "spec_keywords env urls = concat (map (url_spec_keywords env) urls)"

text \<open>
  The program counts less than that: by the guard \<open>cleanSegment.length > 2\<close> of the
  source, a kept segment is counted only when its keyword is itself longer than two
  characters. \<open>counted_segment\<close> is that test, which is not in the specification, and
  \<open>all_keywords\<close> the list of the keyword occurrences that the program counts. \<open>tally\<close>
  counts a list of keywords into a table, and \<open>keyword_entries\<close> is the table of all
  counted keywords before it is sorted and cut.
\<close>

definition counted_segment :: "env \<Rightarrow> jsstring \<Rightarrow> bool" where
  "counted_segment env segment =
     (kept_segment segment \<and> 2 < length (keyword_of env segment))"

definition url_keywords :: "env \<Rightarrow> jsstring \<Rightarrow> jsstring list" where
  "url_keywords env url =
     (case parse_url env url of
        Inl e \<Rightarrow> []
      | Inr u \<Rightarrow> map (keyword_of env) (filter (counted_segment env) (split_on 47 (pathname u))))"

definition all_keywords :: "env \<Rightarrow> jsstring list \<Rightarrow> jsstring list" where
  "all_keywords env urls = concat (map (url_keywords env) urls)"

fun tally :: "jsstring list \<Rightarrow> (jsstring \<times> nat) list \<Rightarrow> (jsstring \<times> nat) list" where
  "tally [] m = m"
| "tally (k # ks) m =
     tally ks (map_set m k ((case map_get m k of None \<Rightarrow> 0 | Some n \<Rightarrow> n) + 1))"

definition keyword_entries :: "env \<Rightarrow> jsstring list \<Rightarrow> KeywordStat list" where
  "keyword_entries env urls =
     map (\<lambda>(k, n). \<lparr>keyword = k, count = n\<rparr>) (tally (all_keywords env urls) [])"

text \<open>A URL with eleven keywords, and a URL with a segment whose keyword has two
  characters, for the examples.\<close>

definition eleven_url :: jsstring where
  "eleven_url = js ''https://a.com/aaa/bbb/ccc/ddd/eee/fff/ggg/hhh/iii/jjj/kkk/aaa''"

definition short_keyword_url :: jsstring where
  "short_keyword_url = js ''https://a.com/a-b/a-b/xyz''"

section \<open>A sample environment\<close>

text \<open>
  A concrete environment, on which the theorems are instantiated: the day is 2 January
  2024, the store never fails, and the network knows one sitemap, with two URLs.
  \<open>sample_parse_url\<close> reads a URL of the plain form \<open>https://host/path\<close> (lower-case
  host, no port, query or fragment), on which it agrees with the URL standard, and rejects
  every other string. \<open>sample_json_parse\<close> knows the two JSON texts used below, and
  \<open>sample_json_stringify\<close> writes an array of strings that need no escaping.
  \<open>ascii_lower\<close> is \<open>toLowerCase\<close> on ASCII text.
\<close>

definition sample_parse_url :: "jsstring \<Rightarrow> js_error + url" where
  "sample_parse_url s =
     (if startsWith s (js ''https://'') \<and> length s > 8 then
        (let r = drop 8 s; p = dropWhile (\<lambda>c. c \<noteq> 47) r
         in Inr \<lparr>hostname = takeWhile (\<lambda>c. c \<noteq> 47) r,
                 pathname = (if p = [] then js ''/'' else p)\<rparr>)
      else Inl (JsError (js ''Invalid URL'')))"

definition sample_body :: jsstring where
  "sample_body = js ''<loc>https://a.com/new</loc><loc>https://a.com/old</loc>''"

definition sample_network :: "jsstring \<Rightarrow> js_error + response" where
  "sample_network u =
     (if u = js ''https://a.com/sitemap.xml'' then
        Inr \<lparr>ok = True, status = 200, statusText = js ''OK'', has_body = True,
             body_text = Inr sample_body,
             gunzipped_text = Inl (JsError (js ''invalid gzip data''))\<rparr>
      else if u = js ''https://b.com/sitemap.xml'' then
        Inr \<lparr>ok = False, status = 404, statusText = js ''Not Found'', has_body = True,
             body_text = Inr [], gunzipped_text = Inl (JsError (js ''invalid gzip data''))\<rparr>
      else Inl (JsError (js ''network error'')))"

definition sample_json_parse :: "jsstring \<Rightarrow> js_error + json" where
  "sample_json_parse s =
     (if s = js ''null'' then Inr JNull
      else if s = js ''[]'' then Inr (JArr [])
      else Inl (JsError (js ''Unexpected token'')))"

fun sample_json_string :: "json \<Rightarrow> jsstring" where
  "sample_json_string (JStr s) = [34] @ s @ [34]"
| "sample_json_string j = js ''null''"

fun sample_join :: "jsstring list \<Rightarrow> jsstring" where
  "sample_join [] = []"
| "sample_join [s] = s"
| "sample_join (s # t # ss) = s @ [44] @ sample_join (t # ss)"

fun sample_json_stringify :: "json \<Rightarrow> jsstring" where
  "sample_json_stringify (JArr xs) = [91] @ sample_join (map sample_json_string xs) @ [93]"
| "sample_json_stringify j = sample_json_string j"

definition ascii_lower :: "jsstring \<Rightarrow> jsstring" where
  "ascii_lower s = map (\<lambda>c. if 65 \<le> c \<and> c \<le> 90 then c + 32 else c) s"

definition sample_env :: env where
  "sample_env =
     \<lparr>parse_url = sample_parse_url,
      today = js ''20240102'',
      network = sample_network,
      get_error = (\<lambda>key. None),
      put_error = (\<lambda>key v. None),
      json_parse = sample_json_parse,
      json_stringify = sample_json_stringify,
      no_method = (\<lambda>j. JsError (js ''not a function'')),
      toLowerCase = ascii_lower\<rparr>"

text \<open>The URLs, bodies and stores of the examples.\<close>

definition sitemap_url :: jsstring where
  "sitemap_url = js ''https://a.com/sitemap.xml''"

definition missing_url :: jsstring where
  "missing_url = js ''https://b.com/sitemap.xml''"

definition old_body :: jsstring where
  "old_body = js ''<loc>https://a.com/old</loc>''"

definition older_body :: jsstring where
  "older_body = js ''<loc>https://a.com/older</loc>''"

definition empty_world :: world where
  "empty_world = \<lparr>kv = Map.empty, requests = []\<rparr>"

text \<open>A store that rejects the new body (a value over the size limit, say) and accepts
  every other write.\<close>

definition rejecting_env :: env where
  "rejecting_env =
     sample_env\<lparr>put_error :=
       (\<lambda>key v. if v = sample_body then Some (JsError (js ''KV PUT failed: 413'')) else None)\<rparr>"

text \<open>A store whose read of the \<open>current\<close> snapshot of \<open>a.com\<close> is rejected.\<close>

definition unreadable_env :: env where
  "unreadable_env =
     sample_env\<lparr>get_error :=
       (\<lambda>key. if key = js ''sitemap_current_a.com''
               then Some (JsError (js ''KV GET failed: 500'')) else None)\<rparr>"

text \<open>
  The day before, when the sitemap had the older body; and the store that the program has
  written after the first fetch of that day and the first fetch of today.
\<close>

definition yesterday_env :: env where
  "yesterday_env =
     sample_env\<lparr>today := js ''20240101'',
       network := (\<lambda>u. Inr \<lparr>ok = True, status = 200, statusText = js ''OK'', has_body = True,
                              body_text = Inr old_body,
                              gunzipped_text = Inl (JsError (js ''invalid gzip data''))\<rparr>)\<rparr>"

definition throttled_world :: world where
  "throttled_world =
     fst (downloadSitemap sample_env sitemap_url False
       (fst (downloadSitemap yesterday_env sitemap_url False empty_world)))"

section \<open>Evaluation on concrete texts\<close>

text \<open>The definitions that the simplifier unfolds to run the extractor on a literal.\<close>

lemmas js_eval =
  js_def startsWith_def endsWith_def is_line_terminator_def is_white_space_def
  trimmed_char_def trim_def canonicalize_def locRegex_at_def extractURLs_def
  extractURLs_loop.simps locRegex_matches.simps http_url_def ci_equal_def

section \<open>Properties of the diff engine\<close>

lemma array_includes_set: "array_includes ys x = (x \<in> set ys)"
  by (induction ys) auto

lemma extractURLs_Nil: "extractURLs [] = []"
  by (simp add: extractURLs_def extractURLs_loop.simps locRegex_at_def js_def)

lemma count_list_filter: "count_list (filter P xs) u = (if P u then count_list xs u else 0)"
  by (induction xs) auto

text \<open>
  Claim C3 (diff correctness). \<open>compareSitemaps A B\<close> is the list of the URLs extracted
  from \<open>A\<close> that do not occur among the URLs extracted from \<open>B\<close>, in the order of
  \<open>A\<close> and with repetitions kept: a URL that is absent from \<open>B\<close> occurs in the result as
  often as in the extraction of \<open>A\<close>. The diff of a body with itself is empty, and the
  diff with the empty body is the whole extraction.
\<close>

theorem compareSitemaps_diff:
  "compareSitemaps A B = filter (\<lambda>u. u \<notin> set (extractURLs B)) (extractURLs A)
   \<and> count_list (compareSitemaps A B) u =
       (if u \<in> set (extractURLs B) then 0 else count_list (extractURLs A) u)
   \<and> compareSitemaps A A = []
   \<and> compareSitemaps A [] = extractURLs A"
  by (simp add: compareSitemaps_def array_includes_set extractURLs_Nil count_list_filter)

text \<open>An instance: \<open>http://a/x\<close> stands twice in the newer body and not in the older one.\<close>

theorem compareSitemaps_diff_witness:
  "compareSitemaps
     (js ''<loc>http://a/x</loc><loc>http://a/x</loc><loc>http://a/y</loc>'')
     (js ''<loc>http://a/y</loc>'')
   = [js ''http://a/x'', js ''http://a/x'']
   \<and> count_list
        (compareSitemaps
          (js ''<loc>http://a/x</loc><loc>http://a/x</loc><loc>http://a/y</loc>'')
          (js ''<loc>http://a/y</loc>''))
        (js ''http://a/x'') = 2"
proof -
  have A: "extractURLs (js ''<loc>http://a/x</loc><loc>http://a/x</loc><loc>http://a/y</loc>'')
           = [js ''http://a/x'', js ''http://a/x'', js ''http://a/y'']"
    by (simp add: js_eval)
  have B: "extractURLs (js ''<loc>http://a/y</loc>'') = [js ''http://a/y'']"
    by (simp add: js_eval)
  show ?thesis
    using compareSitemaps_diff
      [of "js ''<loc>http://a/x</loc><loc>http://a/x</loc><loc>http://a/y</loc>''"
          "js ''<loc>http://a/y</loc>''" "js ''http://a/x''"]
    by (simp add: A B) (simp add: js_def)
qed

section \<open>Properties of the regular expression\<close>

lemma extractURLs_loop_step:
  "locRegex_exec s = Some (cap, rest) \<Longrightarrow>
   extractURLs_loop s urls =
     extractURLs_loop rest (if http_url (trim cap) then urls @ [trim cap] else urls)"
  by (subst extractURLs_loop.simps) (simp add: http_url_def)

lemma extractURLs_loop_stop: "locRegex_exec s = None \<Longrightarrow> extractURLs_loop s urls = urls"
  by (subst extractURLs_loop.simps) simp

lemma locRegex_matches_step:
  "locRegex_exec s = Some (cap, rest) \<Longrightarrow> locRegex_matches s = cap # locRegex_matches rest"
  by (subst locRegex_matches.simps) simp

lemma locRegex_matches_stop: "locRegex_exec s = None \<Longrightarrow> locRegex_matches s = []"
  by (subst locRegex_matches.simps) simp

lemma extractURLs_loop_matches:
  "extractURLs_loop s urls = urls @ filter http_url (map trim (locRegex_matches s))"
proof (induction "length s" arbitrary: s urls rule: less_induct)
  case less
  show ?case
  proof (cases "locRegex_exec s")
    case None
    then show ?thesis
      by (simp add: extractURLs_loop_stop locRegex_matches_stop)
  next
    case (Some m)
    obtain cap rest where m: "locRegex_exec s = Some (cap, rest)"
      using Some by (cases m) simp
    then have "length rest < length s" by (rule locRegex_exec_length)
    then have "extractURLs_loop rest u = u @ filter http_url (map trim (locRegex_matches rest))"
      for u by (rule less)
    with m show ?thesis
      by (simp add: extractURLs_loop_step locRegex_matches_step)
  qed
qed

lemma match_ci_iff: "match_ci p s = Some r \<longleftrightarrow> (\<exists>c. s = c @ r \<and> ci_equal c p)"
proof (induction p s rule: match_ci.induct)
  case (1 s)
  then show ?case by (auto simp: ci_equal_def)
next
  case (2 p ps)
  then show ?case by (auto simp: ci_equal_def)
next
  case (3 p ps c cs)
  show ?case
  proof
    assume "match_ci (p # ps) (c # cs) = Some r"
    then have c: "canonicalize c = canonicalize p" and "match_ci ps cs = Some r"
      by (auto split: if_splits)
    with 3 obtain d where "cs = d @ r" "ci_equal d ps" by auto
    with c have "c # cs = (c # d) @ r \<and> ci_equal (c # d) (p # ps)"
      by (simp add: ci_equal_def)
    then show "\<exists>c'. c # cs = c' @ r \<and> ci_equal c' (p # ps)" by blast
  next
    assume "\<exists>c'. c # cs = c' @ r \<and> ci_equal c' (p # ps)"
    then obtain c' where c': "c # cs = c' @ r" "ci_equal c' (p # ps)" by blast
    then obtain d where d: "c' = c # d" by (cases c') (auto simp: ci_equal_def)
    with c' have "canonicalize c = canonicalize p" "cs = d @ r" "ci_equal d ps"
      by (auto simp: ci_equal_def)
    with 3 show "match_ci (p # ps) (c # cs) = Some r" by auto
  qed
qed

lemma locRegex_lazy_sound:
  "locRegex_lazy acc s = Some (cap, r) \<Longrightarrow>
   \<exists>v c. cap = acc @ v \<and> s = v @ c @ r \<and> ci_equal c (js ''</loc>'') \<and>
         (\<forall>x\<in>set v. \<not> is_line_terminator x) \<and>
         (\<forall>n<length v. match_ci (js ''</loc>'') (drop n s) = None)"
proof (induction acc s rule: locRegex_lazy.induct)
  case (1 acc)
  then show ?case by (simp add: js_def)
next
  case (2 acc c cs)
  show ?case
  proof (cases "match_ci (js ''</loc>'') (c # cs)")
    case (Some rest)
    with 2(2) have "cap = acc" "r = rest" by auto
    with Some show ?thesis by (auto simp: match_ci_iff)
  next
    case None
    with 2(2) have nl: "\<not> is_line_terminator c" and "locRegex_lazy (acc @ [c]) cs = Some (cap, r)"
      by (auto split: if_splits)
    with 2(1) None obtain v d where v: "cap = (acc @ [c]) @ v" "cs = v @ d @ r"
      "ci_equal d (js ''</loc>'')" "\<forall>x\<in>set v. \<not> is_line_terminator x"
      "\<forall>n<length v. match_ci (js ''</loc>'') (drop n cs) = None" by blast
    have "match_ci (js ''</loc>'') (drop n (c # cs)) = None" if "n < length (c # v)" for n
      using that None v(5) by (cases n) auto
    with nl v have "cap = acc @ (c # v) \<and> c # cs = (c # v) @ d @ r \<and>
         ci_equal d (js ''</loc>'') \<and> (\<forall>x\<in>set (c # v). \<not> is_line_terminator x) \<and>
         (\<forall>n<length (c # v). match_ci (js ''</loc>'') (drop n (c # cs)) = None)" by simp
    then show ?thesis by blast
  qed
qed

lemma locRegex_greedy_sound:
  "locRegex_greedy s = Some (cap, r) \<Longrightarrow>
   \<exists>a c. s = a @ [0x3E] @ cap @ c @ r \<and> 0x3E \<notin> set a \<and> ci_equal c (js ''</loc>'') \<and>
         (\<forall>x\<in>set cap. \<not> is_line_terminator x) \<and>
         (\<forall>n<length cap. match_ci (js ''</loc>'') (drop n (cap @ c @ r)) = None)"
proof (induction s)
  case Nil
  then show ?case by simp
next
  case (Cons c cs)
  show ?case
  proof (cases "c = 0x3E")
    case True
    with Cons(2) have "locRegex_lazy [] cs = Some (cap, r)" by simp
    from locRegex_lazy_sound [OF this] obtain d where
      "cs = cap @ d @ r" "ci_equal d (js ''</loc>'')" "\<forall>x\<in>set cap. \<not> is_line_terminator x"
      "\<forall>n<length cap. match_ci (js ''</loc>'') (drop n (cap @ d @ r)) = None"
      by auto
    with True have "c # cs = [] @ [0x3E] @ cap @ d @ r \<and> 0x3E \<notin> set ([]::nat list) \<and>
      ci_equal d (js ''</loc>'') \<and> (\<forall>x\<in>set cap. \<not> is_line_terminator x) \<and>
      (\<forall>n<length cap. match_ci (js ''</loc>'') (drop n (cap @ d @ r)) = None)" by simp
    then show ?thesis by blast
  next
    case False
    with Cons(2) have "locRegex_greedy cs = Some (cap, r)"
      by (auto split: option.splits)
    with Cons(1) obtain a d where "cs = a @ [0x3E] @ cap @ d @ r" "0x3E \<notin> set a"
      "ci_equal d (js ''</loc>'')" "\<forall>x\<in>set cap. \<not> is_line_terminator x"
      "\<forall>n<length cap. match_ci (js ''</loc>'') (drop n (cap @ d @ r)) = None" by blast
    with False have "c # cs = (c # a) @ [0x3E] @ cap @ d @ r \<and> 0x3E \<notin> set (c # a) \<and>
      ci_equal d (js ''</loc>'') \<and> (\<forall>x\<in>set cap. \<not> is_line_terminator x) \<and>
      (\<forall>n<length cap. match_ci (js ''</loc>'') (drop n (cap @ d @ r)) = None)" by simp
    then show ?thesis by blast
  qed
qed

lemma locRegex_at_sound:
  assumes "locRegex_at s = Some (cap, r)"
  shows "loc_delimited s [] cap r"
proof -
  from assms obtain rest where m: "match_ci (js ''<loc'') s = Some rest"
    and g: "locRegex_greedy rest = Some (cap, r)"
    by (auto simp: locRegex_at_def split: option.splits)
  from m obtain otag where "s = otag @ rest" "ci_equal otag (js ''<loc'')"
    by (auto simp: match_ci_iff)
  moreover from locRegex_greedy_sound [OF g] obtain a ctag where
    "rest = a @ [0x3E] @ cap @ ctag @ r" "0x3E \<notin> set a" "ci_equal ctag (js ''</loc>'')"
    "\<forall>x\<in>set cap. \<not> is_line_terminator x"
    "\<forall>n<length cap. match_ci (js ''</loc>'') (drop n (cap @ ctag @ r)) = None" by blast
  ultimately show ?thesis
    unfolding loc_delimited_def by auto
qed

lemma loc_delimited_Cons: "loc_delimited s pre cap r \<Longrightarrow> loc_delimited (c # s) (c # pre) cap r"
  unfolding loc_delimited_def by auto

lemma locRegex_exec_sound:
  "locRegex_exec s = Some (cap, r) \<Longrightarrow> \<exists>pre. loc_delimited s pre cap r"
proof (induction s)
  case Nil
  then show ?case by (auto dest: locRegex_at_sound)
next
  case (Cons c cs)
  then show ?case
    by (cases "locRegex_at (c # cs)") (auto dest: locRegex_at_sound loc_delimited_Cons)
qed

lemma loc_delimited_append: "loc_delimited s pre cap r \<Longrightarrow> loc_delimited (p @ s) (p @ pre) cap r"
  unfolding loc_delimited_def by auto

lemma loc_delimited_suffix: "loc_delimited s pre cap r \<Longrightarrow> \<exists>p. s = p @ r"
  unfolding loc_delimited_def by (metis append.assoc)

lemma locRegex_matches_sound:
  "cap \<in> set (locRegex_matches s) \<Longrightarrow> \<exists>pre post. loc_delimited s pre cap post"
proof (induction s rule: locRegex_matches.induct)
  case (1 s)
  show ?case
  proof (cases "locRegex_exec s")
    case None
    with 1(2) show ?thesis by (simp add: locRegex_matches.simps [of s])
  next
    case (Some m)
    obtain c0 rest where m: "m = (c0, rest)" by (cases m)
    from Some m obtain pre0 where d0: "loc_delimited s pre0 c0 rest"
      by (auto dest: locRegex_exec_sound)
    from 1(2) Some m have "cap = c0 \<or> cap \<in> set (locRegex_matches rest)"
      by (simp add: locRegex_matches.simps [of s])
    then show ?thesis
    proof
      assume "cap = c0"
      with d0 show ?thesis by blast
    next
      assume "cap \<in> set (locRegex_matches rest)"
      with 1(1) Some m obtain pre post where d: "loc_delimited rest pre cap post" by blast
      from d0 obtain p where "s = p @ rest" by (auto dest: loc_delimited_suffix)
      with loc_delimited_append [OF d, of p] show ?thesis by blast
    qed
  qed
qed

lemma canonicalize_lt: "canonicalize c = canonicalize 60 \<longleftrightarrow> c = 60"
  by (auto simp: canonicalize_def)

lemma locRegex_at_not_lt: "c \<noteq> 60 \<Longrightarrow> locRegex_at (c # cs) = None"
  by (simp add: locRegex_at_def js_def canonicalize_lt)

lemma close_not_lt: "c \<noteq> 60 \<Longrightarrow> match_ci (js ''</loc>'') (c # cs) = None"
  by (simp add: js_def canonicalize_lt)

lemma match_ci_append: "ci_equal c p \<Longrightarrow> match_ci p (c @ r) = Some r"
  by (auto simp: match_ci_iff)

lemma locRegex_lazy_complete:
  "\<forall>x\<in>set v. x \<noteq> 60 \<and> \<not> is_line_terminator x \<Longrightarrow> ci_equal ctag (js ''</loc>'') \<Longrightarrow>
   locRegex_lazy acc (v @ ctag @ r) = Some (acc @ v, r)"
proof (induction v arbitrary: acc)
  case Nil
  then have m: "match_ci (js ''</loc>'') (ctag @ r) = Some r" by (simp add: match_ci_append)
  show ?case
  proof (cases "ctag @ r")
    case Nil
    with m show ?thesis by (simp add: js_def)
  next
    case (Cons a as)
    with m show ?thesis by simp
  qed
next
  case (Cons c v)
  then show ?case by (simp add: close_not_lt)
qed

lemma locRegex_lazy_broken:
  "\<forall>x\<in>set v. x \<noteq> 60 \<and> \<not> is_line_terminator x \<Longrightarrow> is_line_terminator n \<Longrightarrow>
   locRegex_lazy acc (v @ n # r) = None"
proof (induction v arbitrary: acc)
  case Nil
  then have "n \<noteq> 60" by (auto simp: is_line_terminator_def)
  with Nil show ?case by (simp add: close_not_lt)
next
  case (Cons c v)
  then show ?case by (simp add: close_not_lt)
qed

lemma locRegex_greedy_skip: "62 \<notin> set a \<Longrightarrow> locRegex_greedy (a @ 62 # x) = locRegex_lazy [] x"
proof (induction a)
  case Nil
  then show ?case by simp
next
  case (Cons c a)
  then show ?case by (cases "locRegex_lazy [] x") auto
qed

lemma locRegex_exec_skip: "60 \<notin> set sep \<Longrightarrow> locRegex_exec (sep @ x) = locRegex_exec x"
  by (induction sep) (auto simp: locRegex_at_not_lt)

lemma match_ci_None_append:
  "match_ci p s = None \<Longrightarrow> x = [] \<or> hd x = 60 \<Longrightarrow>
   \<forall>q\<in>set p. canonicalize q \<noteq> canonicalize 60 \<Longrightarrow> match_ci p (s @ x) = None"
proof (induction p s rule: match_ci.induct)
  case (1 s)
  then show ?case by simp
next
  case (2 p ps)
  then have "canonicalize 60 \<noteq> canonicalize p" by (metis list.set_intros(1))
  with 2 show ?case by (cases x) auto
next
  case (3 p ps c cs)
  then show ?case by (auto split: if_splits)
qed

lemma open_None_append:
  assumes "match_ci (js ''<loc'') (c # cs) = None" and "x = [] \<or> hd x = 60"
  shows "match_ci (js ''<loc'') (c # cs @ x) = None"
proof (cases "c = 60")
  case False
  then show ?thesis by (simp add: js_def canonicalize_lt)
next
  case True
  with assms(1) have "match_ci (js ''loc'') cs = None" by (simp add: js_def)
  moreover have "\<forall>q\<in>set (js ''loc''). canonicalize q \<noteq> canonicalize 60"
    by (simp add: js_def canonicalize_def)
  ultimately have "match_ci (js ''loc'') (cs @ x) = None"
    using assms(2) by (intro match_ci_None_append)
  with True show ?thesis by (simp add: js_def)
qed

lemma locRegex_exec_skip_no_open:
  "no_open_tag sep \<Longrightarrow> x = [] \<or> hd x = 60 \<Longrightarrow> locRegex_exec (sep @ x) = locRegex_exec x"
  by (induction sep) (auto simp: locRegex_at_def open_None_append)

lemma no_open_tag_no_lt: "60 \<notin> set s \<Longrightarrow> no_open_tag s"
  by (induction s) (auto simp: js_def canonicalize_lt)


lemma locRegex_exec_at: "locRegex_at s = Some m \<Longrightarrow> locRegex_exec s = Some m"
  by (cases s) auto

lemma locRegex_exec_at_None: "locRegex_at (c # cs) = None \<Longrightarrow> locRegex_exec (c # cs) = locRegex_exec cs"
  by simp

lemma ci_equal_open:
  "ci_equal otag (js ''<loc'') \<Longrightarrow> \<exists>t. otag = 60 # t \<and> 60 \<notin> set t"
  by (auto simp: ci_equal_def js_def canonicalize_lt) (auto simp: canonicalize_def split: if_splits)

lemma ci_equal_close:
  "ci_equal ctag (js ''</loc>'') \<Longrightarrow> \<exists>t. ctag = 60 # 47 # t \<and> 60 \<notin> set t"
  by (auto simp: ci_equal_def js_def canonicalize_lt) (auto simp: canonicalize_def split: if_splits)

lemma locRegex_at_close: "locRegex_at (60 # 47 # t) = None"
  by (simp add: locRegex_at_def js_def canonicalize_def)

lemma locRegex_exec_plain_entry:
  assumes "plain_entry e"
  shows "locRegex_exec (render_entry e @ rest) = Some (content e, rest)"
proof -
  have "locRegex_at (open_tag e @ attributes e @ 62 # content e @ close_tag e @ rest)
        = Some (content e, rest)"
    using assms
    by (simp add: locRegex_at_def plain_entry_def match_ci_append locRegex_greedy_skip
        locRegex_lazy_complete)
  then have "locRegex_exec (open_tag e @ attributes e @ 62 # content e @ close_tag e @ rest)
        = Some (content e, rest)" by (rule locRegex_exec_at)
  moreover from assms obtain t where "open_tag e = 60 # t"
    by (auto simp: plain_entry_def dest: ci_equal_open)
  ultimately show ?thesis
    using assms by (simp add: render_entry_def plain_entry_def locRegex_exec_skip_no_open)
qed

lemma locRegex_matches_plain:
  "list_all plain_entry es \<Longrightarrow>
   locRegex_matches (concat (map render_entry es) @ rest) = map content es @ locRegex_matches rest"
  by (induction es) (simp_all add: locRegex_exec_plain_entry locRegex_matches_step)

lemma locRegex_exec_broken:
  assumes e: "plain_entry e" and a: "60 \<notin> set (attributes e)"
    and n: "is_line_terminator n" and m: "no_open_tag brk"
  shows "locRegex_exec (render_broken e n brk @ rest) = locRegex_exec rest"
proof -
  from e obtain t where t: "open_tag e = 60 # t" "60 \<notin> set t"
    by (auto simp: plain_entry_def dest: ci_equal_open)
  from e obtain u where u: "close_tag e = 60 # 47 # u" "60 \<notin> set u"
    by (auto simp: plain_entry_def dest: ci_equal_close)
  let ?tail = "attributes e @ 62 # content e @ [n]"
  have n60: "n \<noteq> 60" using n by (auto simp: is_line_terminator_def)
  have "locRegex_at (open_tag e @ ?tail @ brk @ close_tag e @ rest) = None"
    using e n
    by (simp add: locRegex_at_def plain_entry_def match_ci_append locRegex_greedy_skip
        locRegex_lazy_broken)
  then have 1: "locRegex_exec (open_tag e @ ?tail @ brk @ close_tag e @ rest)
      = locRegex_exec ((t @ ?tail) @ brk @ close_tag e @ rest)"
    by (simp add: t)
  have "60 \<notin> set (t @ ?tail)" using t a n60 e by (auto simp: plain_entry_def)
  then have "locRegex_exec ((t @ ?tail) @ brk @ close_tag e @ rest)
      = locRegex_exec (brk @ close_tag e @ rest)"
    by (rule locRegex_exec_skip)
  also have "\<dots> = locRegex_exec (close_tag e @ rest)"
    using m by (simp add: locRegex_exec_skip_no_open u)
  finally have 2: "locRegex_exec ((t @ ?tail) @ brk @ close_tag e @ rest)
      = locRegex_exec (close_tag e @ rest)" .
  have 3: "locRegex_exec (close_tag e @ rest) = locRegex_exec ((47 # u) @ rest)"
    by (simp add: u locRegex_at_close)
  have "60 \<notin> set (47 # u)" using u by simp
  then have 4: "locRegex_exec ((47 # u) @ rest) = locRegex_exec rest"
    by (rule locRegex_exec_skip)
  have "locRegex_exec (render_broken e n brk @ rest)
      = locRegex_exec (open_tag e @ ?tail @ brk @ close_tag e @ rest)"
    using e by (simp add: render_broken_def plain_entry_def locRegex_exec_skip_no_open t)
  with 1 2 3 4 show ?thesis by simp
qed

lemma locRegex_matches_cong: "locRegex_exec s = locRegex_exec s' \<Longrightarrow> locRegex_matches s = locRegex_matches s'"
  by (subst locRegex_matches.simps, subst (2) locRegex_matches.simps) simp

lemma extractURLs_matches: "extractURLs s = filter http_url (map trim (locRegex_matches s))"
  by (simp add: extractURLs_def extractURLs_loop_matches)

lemma trim_sub: "\<exists>l r. s = l @ trim s @ r"
proof -
  let ?a = "dropWhile trimmed_char s"
  have "s = takeWhile trimmed_char s @ ?a" by simp
  moreover have "rev ?a = takeWhile trimmed_char (rev ?a) @ dropWhile trimmed_char (rev ?a)" by simp
  then have "?a = trim s @ rev (takeWhile trimmed_char (rev ?a))"
    unfolding trim_def by (metis rev_append rev_rev_ident)
  ultimately have "s = takeWhile trimmed_char s @ trim s @ rev (takeWhile trimmed_char (rev ?a))"
    by simp
  then show ?thesis by blast
qed

lemma set_trim: "set (trim s) \<subseteq> set s"
  using trim_sub [of s] by (metis Un_upper1 Un_upper2 set_append subset_trans)


section \<open>Properties of the extractor\<close>



text \<open>
  Claim C10 (extraction stays on one line). No URL that \<open>extractURLs\<close> returns holds a
  line terminator, and every one of them stands in the input as a contiguous part of it.
  A \<open><loc>\<close> ... \<open></loc>\<close> pair whose value goes over a line terminator gives no URL: the
  document with such a pair has the URLs of the entries before it and of the text after it.
\<close>

theorem extractURLs_one_line:
  "(u \<in> set (extractURLs s) \<longrightarrow>
      (\<forall>c\<in>set u. \<not> is_line_terminator c) \<and> (\<exists>l r. s = l @ u @ r))
   \<and> (list_all plain_entry es \<and> plain_entry e \<and> 60 \<notin> set (attributes e) \<and>
      is_line_terminator n \<and> no_open_tag brk \<longrightarrow>
        extractURLs (concat (map render_entry es) @ render_broken e n brk @ rest)
        = filter http_url (map (\<lambda>e. trim (content e)) es) @ extractURLs rest)"
proof (intro conjI impI)
  assume "u \<in> set (extractURLs s)"
  then obtain cap where cap: "cap \<in> set (locRegex_matches s)" and u: "u = trim cap"
    by (auto simp: extractURLs_matches)
  from locRegex_matches_sound [OF cap] obtain pre post where d: "loc_delimited s pre cap post"
    by blast
  then have "\<forall>c\<in>set cap. \<not> is_line_terminator c" by (auto simp: loc_delimited_def)
  with set_trim [of cap] u show "\<forall>c\<in>set u. \<not> is_line_terminator c" by auto
  from d obtain a b where "s = a @ cap @ b" unfolding loc_delimited_def
    by (metis append.assoc)
  moreover from trim_sub [of cap] u obtain l r where "cap = l @ u @ r" by blast
  ultimately have "s = (a @ l) @ u @ (r @ b)" by simp
  then show "\<exists>l r. s = l @ u @ r" by blast
next
  assume h: "list_all plain_entry es \<and> plain_entry e \<and> 60 \<notin> set (attributes e) \<and>
      is_line_terminator n \<and> no_open_tag brk"
  then have "locRegex_matches (render_broken e n brk @ rest) = locRegex_matches rest"
    by (intro locRegex_matches_cong locRegex_exec_broken) auto
  with h show "extractURLs (concat (map render_entry es) @ render_broken e n brk @ rest)
        = filter http_url (map (\<lambda>e. trim (content e)) es) @ extractURLs rest"
    by (simp add: extractURLs_matches locRegex_matches_plain comp_def)
qed

text \<open>An instance: a value broken by a line feed, followed by a plain entry.\<close>

theorem extractURLs_one_line_witness:
  "js ''http://a.com/z'' \<in> set (extractURLs (js ''<loc>http://a.com/z </loc>''))
   \<and> (\<exists>l r. js ''<loc>http://a.com/z </loc>'' = l @ js ''http://a.com/z'' @ r)
   \<and> list_all (\<lambda>c. \<not> is_line_terminator c) (js ''http://a.com/z'')
   \<and> extractURLs (js ''<loc>http://a.com/'' @ [10] @ js ''q</loc><loc>http://a.com/z </loc>'')
       = [js ''http://a.com/z'']"
proof -
  let ?s = "js ''<loc>http://a.com/z </loc>''"
  let ?e = "\<lparr>leading = [], open_tag = js ''<loc'', attributes = [],
              content = js ''http://a.com/'', close_tag = js ''</loc>''\<rparr>"
  have u: "extractURLs ?s = [js ''http://a.com/z'']"
    by (simp add: js_eval)
  have p: "plain_entry ?e \<and> 60 \<notin> set (attributes ?e) \<and> is_line_terminator 10 \<and>
      no_open_tag (js ''q'')"
    by (simp add: plain_entry_def js_eval)
  have d: "render_broken ?e 10 (js ''q'') @ ?s
      = js ''<loc>http://a.com/'' @ [10] @ js ''q</loc><loc>http://a.com/z </loc>''"
    by (simp add: render_broken_def js_def)
  have "(\<forall>c\<in>set (js ''http://a.com/z''). \<not> is_line_terminator c) \<and>
      (\<exists>l r. ?s = l @ js ''http://a.com/z'' @ r)"
    using extractURLs_one_line [of "js ''http://a.com/z''" ?s "[]" ?e 10 "js ''q''" ?s] u
    by simp
  moreover have "extractURLs (render_broken ?e 10 (js ''q'') @ ?s) = extractURLs ?s"
    using extractURLs_one_line [of "js ''http://a.com/z''" ?s "[]" ?e 10 "js ''q''" ?s] p
    by simp
  ultimately show ?thesis
    unfolding d by (simp add: u list_all_iff)
qed

section \<open>Running asynchronous computations\<close>

lemmas async_defs = resolve_def of_result_def await_def try_catch_def kv_get_def kv_put_def
  fetch_sitemap_def

lemma await_resolve: "await (resolve x) f w = f x w"
  by (simp add: await_def resolve_def)

lemma await_of_result:
  "await (of_result r) f w = (case r of Inl e \<Rightarrow> (w, Inl e) | Inr x \<Rightarrow> f x w)"
  by (simp add: await_def of_result_def split: sum.splits)

lemma await_kv_get:
  "await (kv_get env k) f w =
     (case get_error env k of Some e \<Rightarrow> (w, Inl e) | None \<Rightarrow> f (kv w k) w)"
  by (simp add: await_def kv_get_def split: option.splits)

lemma await_kv_put:
  "await (kv_put env k v) f w =
     (case put_error env k v of
        Some e \<Rightarrow> (w, Inl e)
      | None \<Rightarrow> f () (w\<lparr>kv := (kv w)(k \<mapsto> v)\<rparr>))"
  by (simp add: await_def kv_put_def split: option.splits)

lemma await_fetch_sitemap:
  "await (fetch_sitemap env url) f w =
     (case fetch_text env url of
        Inl e \<Rightarrow> (w\<lparr>requests := requests w @ [url]\<rparr>, Inl e)
      | Inr b \<Rightarrow> f b (w\<lparr>requests := requests w @ [url]\<rparr>))"
  by (simp add: await_def fetch_sitemap_def split: sum.splits)

lemma try_catch_resolve:
  "try_catch m (\<lambda>e. resolve (h e)) w =
     (case m w of (w', Inl e) \<Rightarrow> (w', Inr (h e)) | (w', Inr x) \<Rightarrow> (w', Inr x))"
  by (simp add: try_catch_def resolve_def split: prod.splits sum.splits)

lemma await_assoc: "await (await m f) g w = await m (\<lambda>x. await (f x) g) w"
  by (simp add: await_def split: prod.splits sum.splits)

lemmas exec_simps =
  await_assoc await_resolve await_of_result await_kv_get await_kv_put await_fetch_sitemap
  try_catch_resolve resolve_def Let_def

lemmas dl_defs = downloadSitemap_def downloadSitemap_try_def exec_simps

lemma kv_get_snd:
  "snd (kv_get env k w) = Inr v \<longleftrightarrow> get_error env k = None \<and> kv w k = v"
  by (auto simp: kv_get_def split: option.splits)

text \<open>Rules for what a computation keeps and what it yields.\<close>

lemma keeps_resolve: "keeps g (resolve x)"
  by (simp add: keeps_def resolve_def)

lemma keeps_of_result: "keeps g (of_result r)"
  by (simp add: keeps_def of_result_def)

lemma keeps_await: "keeps g m \<Longrightarrow> (\<And>x. keeps g (f x)) \<Longrightarrow> keeps g (await m f)"
  unfolding keeps_def await_def
  by (auto split: prod.splits sum.splits) (metis fst_conv)+

lemma keeps_try_catch: "keeps g m \<Longrightarrow> (\<And>e. keeps g (h e)) \<Longrightarrow> keeps g (try_catch m h)"
  unfolding keeps_def try_catch_def
  by (auto split: prod.splits sum.splits) (metis fst_conv)+

lemma keeps_kv_get: "keeps g (kv_get env key)"
  by (simp add: keeps_def kv_get_def split: option.splits)

lemma keeps_kv_put: "key \<noteq> k \<Longrightarrow> keeps (\<lambda>w. kv w k) (kv_put env key v)"
  by (simp add: keeps_def kv_put_def split: option.splits)

lemma keeps_fetch_sitemap_key: "keeps (\<lambda>w. kv w k) (fetch_sitemap env url)"
  by (simp add: keeps_def fetch_sitemap_def)

lemma keeps_if: "keeps g a \<Longrightarrow> keeps g b \<Longrightarrow> keeps g (if c then a else b)"
  by simp

lemma keeps_case_option:
  "keeps g a \<Longrightarrow> (\<And>x. keeps g (b x)) \<Longrightarrow> keeps g (case v of None \<Rightarrow> a | Some x \<Rightarrow> b x)"
  by (cases v) simp_all

lemma keeps_case_prod: "(\<And>a b. keeps g (f a b)) \<Longrightarrow> keeps g (case p of (a, b) \<Rightarrow> f a b)"
  by (cases p) simp

lemmas keeps_intros =
  keeps_resolve keeps_of_result keeps_await keeps_try_catch keeps_kv_get keeps_if
  keeps_case_option keeps_case_prod

lemma yields_resolve: "P x \<Longrightarrow> yields P (resolve x)"
  by (simp add: yields_def resolve_def)

lemma yields_await: "(\<And>x. yields P (f x)) \<Longrightarrow> yields P (await m f)"
  unfolding yields_def await_def by (auto split: prod.splits sum.splits)

lemma yields_if: "yields P a \<Longrightarrow> yields P b \<Longrightarrow> yields P (if c then a else b)"
  by simp

lemma yields_case_option:
  "yields P a \<Longrightarrow> (\<And>x. yields P (b x)) \<Longrightarrow> yields P (case v of None \<Rightarrow> a | Some x \<Rightarrow> b x)"
  by (cases v) simp_all

lemma yields_case_prod: "(\<And>a b. yields P (f a b)) \<Longrightarrow> yields P (case p of (a, b) \<Rightarrow> f a b)"
  by (cases p) simp

lemmas yields_intros =
  yields_resolve yields_await yields_if yields_case_option yields_case_prod

text \<open>The keys of the store are pairwise distinct.\<close>

lemma js_eq_iff: "js a = js b \<longleftrightarrow> a = b"
  by (simp add: js_def inj_map_eq_map [OF inj_of_char])

lemma js_append: "js a @ js b = js (a @ b)" "js a @ js b @ c = js (a @ b) @ c"
  by (simp_all add: js_def)

lemma js_Nil: "js a = [] \<longleftrightarrow> a = []" "[] = js a \<longleftrightarrow> a = []"
  by (auto simp: js_def)

lemmas js_keys = js_eq_iff js_append js_Nil

lemma feedsKey_distinct:
  "js ''sitemap_latest_'' @ d \<noteq> feedsKey" "js ''sitemap_current_'' @ d \<noteq> feedsKey"
  "js ''sitemap_dated_'' @ d' \<noteq> feedsKey" "js ''last_update_'' @ d \<noteq> feedsKey"
  by (simp_all add: feedsKey_def js_def)

lemma snapshot_prefixes_distinct:
  "js ''sitemap_latest_'' \<noteq> js ''sitemap_current_''"
  "js ''sitemap_latest_'' \<noteq> js ''sitemap_dated_''"
  "js ''sitemap_latest_'' \<noteq> js ''last_update_''"
  "js ''sitemap_current_'' \<noteq> js ''sitemap_dated_''"
  "js ''sitemap_current_'' \<noteq> js ''last_update_''"
  "js ''sitemap_dated_'' \<noteq> js ''last_update_''"
  "js ''sitemap_current_'' \<noteq> js ''sitemap_latest_''"
  "js ''sitemap_dated_'' \<noteq> js ''sitemap_latest_''"
  "js ''last_update_'' \<noteq> js ''sitemap_latest_''"
  "js ''sitemap_dated_'' \<noteq> js ''sitemap_current_''"
  "js ''last_update_'' \<noteq> js ''sitemap_current_''"
  "js ''last_update_'' \<noteq> js ''sitemap_dated_''"
  by (simp_all add: js_def)

lemma snapshot_keys_distinct:
  "js ''sitemap_latest_'' @ d \<noteq> js ''sitemap_current_'' @ d1"
  "js ''sitemap_latest_'' @ d \<noteq> js ''sitemap_dated_'' @ d2"
  "js ''sitemap_latest_'' @ d \<noteq> js ''last_update_'' @ d3"
  "js ''sitemap_current_'' @ d \<noteq> js ''sitemap_dated_'' @ d2"
  "js ''sitemap_current_'' @ d \<noteq> js ''last_update_'' @ d3"
  "js ''sitemap_dated_'' @ d \<noteq> js ''last_update_'' @ d3"
  "js ''sitemap_current_'' @ d1 \<noteq> js ''sitemap_latest_'' @ d"
  "js ''sitemap_dated_'' @ d2 \<noteq> js ''sitemap_latest_'' @ d"
  "js ''last_update_'' @ d3 \<noteq> js ''sitemap_latest_'' @ d"
  "js ''sitemap_dated_'' @ d2 \<noteq> js ''sitemap_current_'' @ d"
  "js ''last_update_'' @ d3 \<noteq> js ''sitemap_current_'' @ d"
  "js ''last_update_'' @ d3 \<noteq> js ''sitemap_dated_'' @ d"
  by (simp_all add: js_def)

lemmas key_neq = snapshot_keys_distinct snapshot_prefixes_distinct

lemma rotated_lookup:
  "rotated env d body m (js ''sitemap_current_'' @ d) = Some body"
  "rotated env d body m (js ''sitemap_dated_'' @ d @ js ''_'' @ today env) = Some body"
  "rotated env d body m (js ''last_update_'' @ d) = Some (today env)"
  "m (js ''sitemap_current_'' @ d) = Some C0 \<Longrightarrow> C0 \<noteq> [] \<Longrightarrow>
     rotated env d body m (js ''sitemap_latest_'' @ d) = Some C0"
  "\<not> truthy (m (js ''sitemap_current_'' @ d)) \<Longrightarrow>
     rotated env d body m (js ''sitemap_latest_'' @ d) = m (js ''sitemap_latest_'' @ d)"
  by (auto simp: rotated_def Let_def key_neq split: option.splits)

section \<open>Properties of the per-source attempt\<close>

lemma downloadSitemap_keeps_feedsKey:
  "keeps (\<lambda>w. kv w feedsKey) (downloadSitemap env url f)"
  unfolding downloadSitemap_def downloadSitemap_try_def Let_def
  by (intro keeps_intros keeps_fetch_sitemap_key keeps_kv_put feedsKey_distinct)

lemma downloadSitemap_returns: "\<exists>r. snd (downloadSitemap env url f w) = Inr r"
  by (auto simp: downloadSitemap_def try_catch_def resolve_def split: sum.splits prod.splits)

lemma getFeeds_keeps: "keeps g (getFeeds env)"
  unfolding getFeeds_def by (intro keeps_intros)

lemma getFeeds_eq: "snd (getFeeds env w) = Inr feeds \<Longrightarrow> getFeeds env w = (w, Inr feeds)"
  using getFeeds_keeps [of "\<lambda>w. w" env] by (simp add: keeps_def prod_eq_iff)

lemma downloadSitemap_try_branches:
  "downloadSitemap_try env url f =
     await (of_result (parse_url env url)) (\<lambda>u.
       await (kv_get env (js ''last_update_'' @ hostname u)) (\<lambda>lastUpdate.
         if \<not> f \<and> lastUpdate = Some (today env) then throttle_branch env (hostname u)
         else await (fetch_sitemap env url) (store_branch env (hostname u))))"
  unfolding downloadSitemap_try_def throttle_branch_def store_branch_def Let_def ..


lemma store_branch_success:
  assumes "store_branch env d body w = (w', Inr r)"
  shows "kv w' = rotated env d body (kv w) \<and> requests w' = requests w \<and>
         r = \<lparr>success = True, errorMsg = [],
              datedFile = Some (js ''sitemap_dated_'' @ d @ js ''_'' @ today env),
              newUrls = diff_against body (kv w (js ''sitemap_current_'' @ d))\<rparr>"
proof (cases "truthy (kv w (js ''sitemap_current_'' @ d))")
  case True
  then obtain c where c: "kv w (js ''sitemap_current_'' @ d) = Some c" "c \<noteq> []"
    by (cases "kv w (js ''sitemap_current_'' @ d)") auto
  with assms show ?thesis
    by (auto simp: store_branch_def exec_simps rotated_def diff_against_def
        split: option.splits)
next
  case False
  with assms show ?thesis
    by (cases "kv w (js ''sitemap_current_'' @ d)")
      (auto simp: store_branch_def exec_simps rotated_def diff_against_def
        split: option.splits)
qed


lemma throttle_branch_keeps: "keeps g (throttle_branch env d)"
  unfolding throttle_branch_def by (intro keeps_intros)

lemma downloadSitemap_try_success: "yields success (downloadSitemap_try env url f)"
  unfolding downloadSitemap_try_def Let_def
  by (intro yields_intros) simp_all

lemma downloadSitemap_cases:
  obtains w' r where "downloadSitemap env url f w = (w', Inr r)" "success r"
      "downloadSitemap_try env url f w = (w', Inr r)"
  | w' e where "downloadSitemap env url f w =
        (w', Inr \<lparr>success = False, errorMsg = msg_download_failed @ message e,
                  datedFile = None, newUrls = []\<rparr>)"
      "downloadSitemap_try env url f w = (w', Inl e)"
proof (cases "downloadSitemap_try env url f w")
  case (Pair w' res)
  show ?thesis
  proof (cases res)
    case (Inl e)
    with Pair show ?thesis
      by (intro that(2) [of w' e]) (simp_all add: downloadSitemap_def try_catch_resolve)
  next
    case (Inr r)
    with Pair downloadSitemap_try_success [of env url f] have "success r"
      by (auto simp: yields_def)
    with Pair Inr show ?thesis
      by (intro that(1) [of w' r]) (simp_all add: downloadSitemap_def try_catch_resolve)
  qed
qed

lemma downloadSitemap_fst:
  "fst (downloadSitemap env url f w) = fst (downloadSitemap_try env url f w)"
  by (rule downloadSitemap_cases [of env url f w]) simp_all

lemma try_parse_fail:
  "parse_url env url = Inl e \<Longrightarrow> downloadSitemap_try env url f w = (w, Inl e)"
  by (simp add: downloadSitemap_try_branches await_of_result)

lemma try_marker_fail:
  "parse_url env url = Inr u \<Longrightarrow> get_error env (js ''last_update_'' @ hostname u) = Some e \<Longrightarrow>
   downloadSitemap_try env url f w = (w, Inl e)"
  by (simp add: downloadSitemap_try_branches await_of_result await_kv_get)

lemma try_throttle:
  "parse_url env url = Inr u \<Longrightarrow> get_error env (js ''last_update_'' @ hostname u) = None \<Longrightarrow>
   \<not> f \<and> kv w (js ''last_update_'' @ hostname u) = Some (today env) \<Longrightarrow>
   downloadSitemap_try env url f w = throttle_branch env (hostname u) w"
  by (simp add: downloadSitemap_try_branches await_of_result await_kv_get)

lemma try_fetch_fail:
  "parse_url env url = Inr u \<Longrightarrow> get_error env (js ''last_update_'' @ hostname u) = None \<Longrightarrow>
   \<not> (\<not> f \<and> kv w (js ''last_update_'' @ hostname u) = Some (today env)) \<Longrightarrow>
   fetch_text env url = Inl e \<Longrightarrow>
   downloadSitemap_try env url f w = (w\<lparr>requests := requests w @ [url]\<rparr>, Inl e)"
  by (cases f)
    (simp_all add: downloadSitemap_try_branches await_of_result await_kv_get await_fetch_sitemap)

lemma try_store:
  "parse_url env url = Inr u \<Longrightarrow> get_error env (js ''last_update_'' @ hostname u) = None \<Longrightarrow>
   \<not> (\<not> f \<and> kv w (js ''last_update_'' @ hostname u) = Some (today env)) \<Longrightarrow>
   fetch_text env url = Inr body \<Longrightarrow>
   downloadSitemap_try env url f w =
     store_branch env (hostname u) body (w\<lparr>requests := requests w @ [url]\<rparr>)"
  by (cases f)
    (simp_all add: downloadSitemap_try_branches await_of_result await_kv_get await_fetch_sitemap)



lemma rotated_last: "rotated env d body m = last (rotation_steps env d body m)"
  by (simp add: rotated_def rotation_steps_def Let_def)

lemma store_branch_steps:
  "kv (fst (store_branch env d body w)) \<in> set (rotation_steps env d body (kv w))"
  by (cases "kv w (js ''sitemap_current_'' @ d)")
    (auto simp: store_branch_def exec_simps rotation_steps_def split: option.splits)

lemma downloadSitemap_steps:
  "kv (fst (downloadSitemap env url f w)) = kv w
   \<or> (\<exists>u body. parse_url env url = Inr u \<and> fetch_text env url = Inr body \<and>
         kv (fst (downloadSitemap env url f w))
           \<in> set (rotation_steps env (hostname u) body (kv w)))"
proof (cases "parse_url env url")
  case (Inl e)
  then show ?thesis by (simp add: downloadSitemap_fst try_parse_fail)
next
  case u: (Inr u)
  show ?thesis
  proof (cases "get_error env (js ''last_update_'' @ hostname u)")
    case (Some e)
    with u show ?thesis by (simp add: downloadSitemap_fst try_marker_fail)
  next
    case g: None
    show ?thesis
    proof (cases "\<not> f \<and> kv w (js ''last_update_'' @ hostname u) = Some (today env)")
      case True
      with u g throttle_branch_keeps [of kv env "hostname u"] show ?thesis
        by (simp add: downloadSitemap_fst try_throttle keeps_def)
    next
      case nb: False
      show ?thesis
      proof (cases "fetch_text env url")
        case (Inl e)
        with u g nb show ?thesis by (simp add: downloadSitemap_fst try_fetch_fail)
      next
        case b: (Inr body)
        from store_branch_steps [of env "hostname u" body "w\<lparr>requests := requests w @ [url]\<rparr>"]
        have "kv (fst (downloadSitemap env url f w))
           \<in> set (rotation_steps env (hostname u) body (kv w))"
          using u g nb b by (simp add: downloadSitemap_fst try_store)
        with u b show ?thesis by blast
      qed
    qed
  qed
qed

text \<open>The program keeps the \<open>latest\<close> snapshots non-empty.\<close>

lemma maintains_keeps: "keeps I m \<Longrightarrow> maintains I m"
  by (simp add: keeps_def maintains_def)

lemma maintains_await:
  "maintains I m \<Longrightarrow> (\<And>x. maintains I (f x)) \<Longrightarrow> maintains I (await m f)"
  unfolding maintains_def await_def
  by (auto split: prod.splits sum.splits)

lemma maintains_try_catch:
  "maintains I m \<Longrightarrow> (\<And>e. maintains I (h e)) \<Longrightarrow> maintains I (try_catch m h)"
  unfolding maintains_def try_catch_def
  by (auto split: prod.splits sum.splits)

lemma maintains_if: "maintains I a \<Longrightarrow> maintains I b \<Longrightarrow> maintains I (if c then a else b)"
  by simp

lemma maintains_resolve: "maintains I (resolve x)"
  by (simp add: maintains_def resolve_def)

lemma maintains_of_result: "maintains I (of_result r)"
  by (simp add: maintains_def of_result_def)

lemma maintains_put_feedsKey:
  "maintains (\<lambda>w. latest_nonempty (kv w)) (kv_put env feedsKey v)"
  using feedsKey_distinct(1)
  by (auto simp: maintains_def kv_put_def latest_nonempty_def split: option.splits)

lemma rotation_steps_latest_nonempty:
  assumes "latest_nonempty m" and "m' \<in> set (rotation_steps env d body m)"
  shows "latest_nonempty m'"
  using assms
  by (auto simp: rotation_steps_def latest_nonempty_def Let_def key_neq split: option.splits if_splits)

lemma downloadSitemap_latest_nonempty:
  "latest_nonempty (kv w) \<Longrightarrow> latest_nonempty (kv (fst (downloadSitemap env url f w)))"
  using downloadSitemap_steps [of env url f w]
  by (auto dest: rotation_steps_latest_nonempty)

lemma downloadSitemap_maintains:
  "maintains (\<lambda>w. latest_nonempty (kv w)) (downloadSitemap env url f)"
  by (simp add: maintains_def downloadSitemap_latest_nonempty)

lemmas maintains_intros =
  maintains_await maintains_try_catch maintains_if maintains_resolve maintains_of_result
  maintains_put_feedsKey downloadSitemap_maintains

lemma getFeeds_maintains: "maintains I (getFeeds env)"
  by (rule maintains_keeps) (rule getFeeds_keeps)

lemma addFeed_maintains: "maintains (\<lambda>w. latest_nonempty (kv w)) (addFeed env url)"
  unfolding addFeed_def by (intro maintains_intros getFeeds_maintains)

lemma removeFeed_maintains: "maintains (\<lambda>w. latest_nonempty (kv w)) (removeFeed env url)"
  unfolding removeFeed_def by (intro maintains_intros getFeeds_maintains)

text \<open>The \<open>catch\<close> of the attempt, and the throttle branch.\<close>

lemma downloadSitemap_throttle_keeps:
  assumes "parse_url env url = Inr u"
    and "kv w (js ''last_update_'' @ hostname u) = Some (today env)"
  shows "fst (downloadSitemap env url False w) = w"
proof (cases "get_error env (js ''last_update_'' @ hostname u)")
  case (Some e)
  with assms show ?thesis by (simp add: downloadSitemap_fst try_marker_fail)
next
  case None
  with assms throttle_branch_keeps [of "\<lambda>w. w" env "hostname u"] show ?thesis
    by (simp add: downloadSitemap_fst try_throttle keeps_def)
qed

lemma compareSitemaps_Nil_left: "compareSitemaps [] b = []"
  by (simp add: compareSitemaps_def extractURLs_Nil)



text \<open>The sample environment, evaluated.\<close>

lemmas sample_defs =
  sample_env_def sample_parse_url_def sample_network_def sample_json_parse_def sample_body_def
  ascii_lower_def fetch_text_def feedsKey_def

lemmas sample_defs2 = sample_defs sitemap_url_def missing_url_def old_body_def older_body_def
  empty_world_def rejecting_env_def

lemmas msg_defs =
  msg_updated_today_def msg_updated_today_not_sent_def msg_added_def msg_download_failed_def
  msg_existing_updated_def msg_add_failed_def msg_not_found_def msg_remove_failed_def

lemma sample_parse_sitemap_url:
  "parse_url sample_env sitemap_url = Inr \<lparr>hostname = js ''a.com'', pathname = js ''/sitemap.xml''\<rparr>"
  by (simp add: sample_defs2 js_def startsWith_def)

lemma sample_parse_missing_url:
  "parse_url sample_env missing_url = Inr \<lparr>hostname = js ''b.com'', pathname = js ''/sitemap.xml''\<rparr>"
  by (simp add: sample_defs2 js_def startsWith_def)

lemma sample_fetch_sitemap_url: "fetch_text sample_env sitemap_url = Inr sample_body"
  by (simp add: sample_defs2 js_def endsWith_def)

lemma sample_fetch_missing_url:
  "fetch_text sample_env missing_url = Inl (JsError (js ''HTTP 404: Not Found''))"
  by (simp add: sample_defs2 js_def endsWith_def decimal.simps)

lemma sample_diffs:
  "compareSitemaps sample_body old_body = [js ''https://a.com/new'']"
  "compareSitemaps sample_body [] = [js ''https://a.com/new'', js ''https://a.com/old'']"
  by (simp_all add: compareSitemaps_def sample_body_def old_body_def js_eval)

lemmas sample_run =
  dl_defs sample_parse_sitemap_url sample_parse_missing_url sample_fetch_sitemap_url
  sample_fetch_missing_url sample_diffs

lemma sample_env_fields:
  "get_error sample_env k = None" "put_error sample_env k v = None" "today sample_env = js ''20240102''"
  by (simp_all add: sample_env_def)

lemma sample_getFeeds_empty: "getFeeds sample_env empty_world = (empty_world, Inr (JArr []))"
  by (simp add: getFeeds_def exec_simps sample_env_fields empty_world_def)

lemma sample_download_missing:
  "downloadSitemap sample_env missing_url False empty_world
     = (empty_world\<lparr>requests := [missing_url]\<rparr>,
        Inr \<lparr>success = False, errorMsg = msg_download_failed @ js ''HTTP 404: Not Found'',
             datedFile = None, newUrls = []\<rparr>)"
  by (simp add: sample_run sample_env_fields empty_world_def js_keys)

lemma sample_download_first:
  "snd (downloadSitemap sample_env sitemap_url False empty_world)
     = Inr \<lparr>success = True, errorMsg = [], datedFile = Some (js ''sitemap_dated_a.com_20240102''),
            newUrls = []\<rparr>"
  by (simp add: sample_run sample_env_fields empty_world_def js_keys)

lemma sample_addFeed_first:
  "snd (addFeed sample_env sitemap_url empty_world)
     = Inr \<lparr>success = True, errorMsg = msg_added,
            datedFile = Some (js ''sitemap_dated_a.com_20240102''), newUrls = []\<rparr>"
proof -
  obtain W where "downloadSitemap sample_env sitemap_url False empty_world
      = (W, Inr \<lparr>success = True, errorMsg = [],
                  datedFile = Some (js ''sitemap_dated_a.com_20240102''), newUrls = []\<rparr>)"
    using sample_download_first by (cases "downloadSitemap sample_env sitemap_url False empty_world") simp
  then show ?thesis
    by (simp add: addFeed_def sample_getFeeds_empty feeds_includes_def feeds_push_def
        await_def try_catch_def of_result_def resolve_def kv_put_def sample_env_fields)
qed

lemma sample_bodies_nonempty: "sample_body \<noteq> []" "old_body \<noteq> []"
  by (simp_all add: sample_body_def old_body_def js_keys)

lemma yesterday_world_kv:
  "fst (downloadSitemap yesterday_env sitemap_url False empty_world)
     = \<lparr>kv = [js ''sitemap_current_a.com'' \<mapsto> old_body,
              js ''sitemap_dated_a.com_20240101'' \<mapsto> old_body,
              js ''last_update_a.com'' \<mapsto> js ''20240101''],
        requests = [sitemap_url]\<rparr>"
proof -
  have p: "parse_url yesterday_env sitemap_url
      = Inr \<lparr>hostname = js ''a.com'', pathname = js ''/sitemap.xml''\<rparr>"
    using sample_parse_sitemap_url by (simp add: yesterday_env_def)
  have f: "fetch_text yesterday_env sitemap_url = Inr old_body"
    by (simp add: yesterday_env_def fetch_text_def sitemap_url_def endsWith_def js_def)
  have e: "today yesterday_env = js ''20240101''" "get_error yesterday_env k = None"
    "put_error yesterday_env k v = None" for k v
    by (simp_all add: yesterday_env_def sample_env_def)
  show ?thesis
    by (simp add: dl_defs p f e empty_world_def js_keys)
qed

lemma throttled_world_kv:
  "kv throttled_world (js ''last_update_a.com'') = Some (js ''20240102'')"
  "kv throttled_world (js ''sitemap_current_a.com'') = Some sample_body"
  "kv throttled_world (js ''sitemap_latest_a.com'') = Some old_body"
  unfolding throttled_world_def yesterday_world_kv
  using sample_bodies_nonempty
  by (simp_all add: sample_run sample_env_fields js_keys)

lemma throttled_world_latest: "latest_nonempty (kv throttled_world)"
  unfolding throttled_world_def
  by (intro downloadSitemap_latest_nonempty) (simp add: empty_world_def latest_nonempty_def)

section \<open>The claims about the per-source attempt\<close>

text \<open>
  Claim C1 (same-day throttle), as amended. Let the marker of the domain of \<open>url\<close> be
  today. Then \<open>downloadSitemap\<close> without \<open>forceDownload\<close> leaves the whole state as it
  is (no key is written, no request is made), and a second call returns what the first
  returned. When the store answers the reads of the marker and of the \<open>current\<close> and
  \<open>latest\<close> snapshots, in a store that the program has written (no \<open>latest\<close> snapshot
  is the empty string), it returns success with no archived key, and \<open>newUrls\<close> is the
  diff of \<open>current\<close> with \<open>latest\<close> when both are there, and the empty list when either
  is missing. When the store rejects one of these reads, it returns the failure made of
  that error. The empty store has no empty \<open>latest\<close> snapshot, and \<open>downloadSitemap\<close>,
  \<open>addFeed\<close> and \<open>removeFeed\<close> never write one.
\<close>

theorem downloadSitemap_throttle:
  assumes "parse_url env url = Inr u"
    and "kv w (js ''last_update_'' @ hostname u) = Some (today env)"
  shows "fst (downloadSitemap env url False w) = w
    \<and> downloadSitemap env url False (fst (downloadSitemap env url False w))
        = downloadSitemap env url False w
    \<and> (get_error env (js ''last_update_'' @ hostname u) = None \<and>
        get_error env (js ''sitemap_current_'' @ hostname u) = None \<and>
        get_error env (js ''sitemap_latest_'' @ hostname u) = None \<and>
        latest_nonempty (kv w) \<longrightarrow>
        snd (downloadSitemap env url False w) =
          Inr \<lparr>success = True,
               errorMsg =
                 (if truthy (kv w (js ''sitemap_current_'' @ hostname u)) \<and>
                     truthy (kv w (js ''sitemap_latest_'' @ hostname u))
                  then msg_updated_today_not_sent else msg_updated_today),
               datedFile = None,
               newUrls =
                 (case (kv w (js ''sitemap_current_'' @ hostname u),
                        kv w (js ''sitemap_latest_'' @ hostname u)) of
                    (Some c, Some l) \<Rightarrow> compareSitemaps c l
                  | _ \<Rightarrow> [])\<rparr>)
    \<and> (get_error env (js ''last_update_'' @ hostname u) = Some e \<or>
        get_error env (js ''last_update_'' @ hostname u) = None \<and>
        (get_error env (js ''sitemap_current_'' @ hostname u) = Some e \<or>
         get_error env (js ''sitemap_current_'' @ hostname u) = None \<and>
         get_error env (js ''sitemap_latest_'' @ hostname u) = Some e) \<longrightarrow>
        snd (downloadSitemap env url False w) = Inr (failure_outcome e))
    \<and> latest_nonempty Map.empty
    \<and> (latest_nonempty (kv w0) \<longrightarrow>
        latest_nonempty (kv (fst (downloadSitemap env url0 f0 w0))) \<and>
        latest_nonempty (kv (fst (addFeed env url0 w0))) \<and>
        latest_nonempty (kv (fst (removeFeed env url0 w0))))"
proof (intro conjI impI)
  show 1: "fst (downloadSitemap env url False w) = w"
    using assms by (simp add: downloadSitemap_throttle_keeps)
  then show "downloadSitemap env url False (fst (downloadSitemap env url False w))
        = downloadSitemap env url False w" by simp
  show "latest_nonempty Map.empty" by (simp add: latest_nonempty_def)
next
  assume h: "get_error env (js ''last_update_'' @ hostname u) = None \<and>
        get_error env (js ''sitemap_current_'' @ hostname u) = None \<and>
        get_error env (js ''sitemap_latest_'' @ hostname u) = None \<and>
        latest_nonempty (kv w)"
  then have l: "kv w (js ''sitemap_latest_'' @ hostname u) \<noteq> Some []"
    by (simp add: latest_nonempty_def)
  show "snd (downloadSitemap env url False w) =
          Inr \<lparr>success = True,
               errorMsg =
                 (if truthy (kv w (js ''sitemap_current_'' @ hostname u)) \<and>
                     truthy (kv w (js ''sitemap_latest_'' @ hostname u))
                  then msg_updated_today_not_sent else msg_updated_today),
               datedFile = None,
               newUrls =
                 (case (kv w (js ''sitemap_current_'' @ hostname u),
                        kv w (js ''sitemap_latest_'' @ hostname u)) of
                    (Some c, Some l) \<Rightarrow> compareSitemaps c l
                  | _ \<Rightarrow> [])\<rparr>"
    using assms h l
    by (cases "kv w (js ''sitemap_current_'' @ hostname u)";
        cases "kv w (js ''sitemap_latest_'' @ hostname u)")
      (simp_all add: downloadSitemap_def downloadSitemap_try_def exec_simps
        compareSitemaps_Nil_left)
next
  assume "get_error env (js ''last_update_'' @ hostname u) = Some e \<or>
        get_error env (js ''last_update_'' @ hostname u) = None \<and>
        (get_error env (js ''sitemap_current_'' @ hostname u) = Some e \<or>
         get_error env (js ''sitemap_current_'' @ hostname u) = None \<and>
         get_error env (js ''sitemap_latest_'' @ hostname u) = Some e)"
  with assms show "snd (downloadSitemap env url False w) = Inr (failure_outcome e)"
    by (auto simp: downloadSitemap_def downloadSitemap_try_def exec_simps failure_outcome_def)
next
  assume i: "latest_nonempty (kv w0)"
  show "latest_nonempty (kv (fst (downloadSitemap env url0 f0 w0)))"
    using i by (rule downloadSitemap_latest_nonempty)
  show "latest_nonempty (kv (fst (addFeed env url0 w0)))"
    using i addFeed_maintains [of env url0] by (simp add: maintains_def)
  show "latest_nonempty (kv (fst (removeFeed env url0 w0)))"
    using i removeFeed_maintains [of env url0] by (simp add: maintains_def)
qed

text \<open>An instance of C1, on the store written by a fetch of the day before and a fetch of
  today: one URL is new; and the same call when the read of \<open>current\<close> is rejected.\<close>

theorem downloadSitemap_throttle_witness:
  "downloadSitemap sample_env sitemap_url False throttled_world
     = (throttled_world,
        Inr \<lparr>success = True, errorMsg = msg_updated_today_not_sent, datedFile = None,
             newUrls = [js ''https://a.com/new'']\<rparr>)
   \<and> snd (downloadSitemap unreadable_env sitemap_url False throttled_world)
     = Inr (failure_outcome (JsError (js ''KV GET failed: 500'')))
   \<and> latest_nonempty (kv (fst (downloadSitemap sample_env sitemap_url True throttled_world)))"
proof -
  let ?u = "\<lparr>hostname = js ''a.com'', pathname = js ''/sitemap.xml''\<rparr>"
  have m: "kv throttled_world (js ''last_update_'' @ hostname ?u) = Some (today sample_env)"
    by (simp add: throttled_world_kv sample_env_fields js_keys)
  note inst = downloadSitemap_throttle [OF sample_parse_sitemap_url m,
      of "JsError (js ''KV GET failed: 500'')" throttled_world sitemap_url True]
  have 1: "fst (downloadSitemap sample_env sitemap_url False throttled_world) = throttled_world"
    using inst by blast
  have "snd (downloadSitemap sample_env sitemap_url False throttled_world)
      = Inr \<lparr>success = True, errorMsg = msg_updated_today_not_sent, datedFile = None,
             newUrls = [js ''https://a.com/new'']\<rparr>"
    using inst throttled_world_latest sample_bodies_nonempty
    by (simp add: sample_env_fields throttled_world_kv js_keys sample_diffs)
  with 1 have 2: "downloadSitemap sample_env sitemap_url False throttled_world
     = (throttled_world,
        Inr \<lparr>success = True, errorMsg = msg_updated_today_not_sent, datedFile = None,
             newUrls = [js ''https://a.com/new'']\<rparr>)"
    by (simp add: prod_eq_iff)
  have 3: "latest_nonempty (kv (fst (downloadSitemap sample_env sitemap_url True throttled_world)))"
    using inst throttled_world_latest by blast
  have p: "parse_url unreadable_env sitemap_url = Inr ?u"
    using sample_parse_sitemap_url by (simp add: unreadable_env_def)
  have m': "kv throttled_world (js ''last_update_'' @ hostname ?u) = Some (today unreadable_env)"
    by (simp add: throttled_world_kv unreadable_env_def sample_env_def js_keys)
  have g: "get_error unreadable_env (js ''last_update_'' @ hostname ?u) = None \<and>
      get_error unreadable_env (js ''sitemap_current_'' @ hostname ?u)
        = Some (JsError (js ''KV GET failed: 500''))"
    by (simp add: unreadable_env_def js_keys)
  from downloadSitemap_throttle [OF p m', of "JsError (js ''KV GET failed: 500'')"] g
  have 4: "snd (downloadSitemap unreadable_env sitemap_url False throttled_world)
     = Inr (failure_outcome (JsError (js ''KV GET failed: 500'')))" by blast
  from 2 3 4 show ?thesis by simp
qed

text \<open>
  C1 as stated fails when the store rejects the read of the \<open>current\<close> snapshot: the
  marker is today and both snapshots are there, with one new URL between them, and the
  attempt returns a failure with no URL.
\<close>

theorem downloadSitemap_throttle_counterexample:
  "kv throttled_world (js ''last_update_a.com'') = Some (today unreadable_env)
   \<and> kv throttled_world (js ''sitemap_current_a.com'') = Some sample_body
   \<and> kv throttled_world (js ''sitemap_latest_a.com'') = Some old_body
   \<and> compareSitemaps sample_body old_body = [js ''https://a.com/new'']
   \<and> snd (downloadSitemap unreadable_env sitemap_url False throttled_world)
     = Inr \<lparr>success = False, errorMsg = msg_download_failed @ js ''KV GET failed: 500'',
            datedFile = None, newUrls = []\<rparr>"
proof -
  have p: "parse_url unreadable_env sitemap_url
      = Inr \<lparr>hostname = js ''a.com'', pathname = js ''/sitemap.xml''\<rparr>"
    using sample_parse_sitemap_url by (simp add: unreadable_env_def)
  have e: "today unreadable_env = js ''20240102''"
    "get_error unreadable_env k =
       (if k = js ''sitemap_current_a.com''
        then Some (JsError (js ''KV GET failed: 500'')) else None)" for k
    by (simp_all add: unreadable_env_def sample_env_def)
  show ?thesis
    by (simp add: dl_defs p e throttled_world_kv js_keys sample_diffs)
qed

text \<open>
  Claim C2 (snapshot rotation), as amended. Let the domain of \<open>url\<close> have a
  \<open>current\<close> snapshot \<open>C0\<close> that is not the empty string, and let a call of
  \<open>downloadSitemap\<close> that is not throttled (forced, or the marker is not today) return
  success. Then a body was fetched; in the new state \<open>latest\<close> is \<open>C0\<close>, \<open>current\<close> and
  the dated key of today hold the body, and the marker is today; the result is success with
  the empty message, the dated key \<open>sitemap_dated_<domain>_<today>\<close> and the diff of the
  body with \<open>C0\<close>; and exactly one request was made.
\<close>

theorem downloadSitemap_rotation:
  assumes u: "parse_url env url = Inr u"
    and c0: "kv w (js ''sitemap_current_'' @ hostname u) = Some C0" "C0 \<noteq> []"
    and br: "f \<or> kv w (js ''last_update_'' @ hostname u) \<noteq> Some (today env)"
    and run: "downloadSitemap env url f w = (w', Inr r)"
    and ok: "success r"
  shows "\<exists>body. fetch_text env url = Inr body
           \<and> kv w' (js ''sitemap_latest_'' @ hostname u) = Some C0
           \<and> kv w' (js ''sitemap_current_'' @ hostname u) = Some body
           \<and> kv w' (js ''sitemap_dated_'' @ hostname u @ js ''_'' @ today env) = Some body
           \<and> kv w' (js ''last_update_'' @ hostname u) = Some (today env)
           \<and> r = \<lparr>success = True, errorMsg = [],
                   datedFile = Some (js ''sitemap_dated_'' @ hostname u @ js ''_'' @ today env),
                   newUrls = compareSitemaps body C0\<rparr>
           \<and> requests w' = requests w @ [url]"
proof -
  from run ok have t: "downloadSitemap_try env url f w = (w', Inr r)"
    by (rule_tac downloadSitemap_cases [of env url f w]) auto
  have g: "get_error env (js ''last_update_'' @ hostname u) = None"
  proof (cases "get_error env (js ''last_update_'' @ hostname u)")
    case (Some e)
    with t try_marker_fail [OF u Some, of f w] show ?thesis by simp
  qed simp
  from br have nb: "\<not> (\<not> f \<and> kv w (js ''last_update_'' @ hostname u) = Some (today env))"
    by blast
  obtain body where b: "fetch_text env url = Inr body"
  proof (cases "fetch_text env url")
    case (Inl e)
    with t try_fetch_fail [OF u g nb Inl] show ?thesis by simp
  next
    case (Inr body)
    then show ?thesis by (rule that)
  qed
  from t try_store [OF u g nb b]
  have "store_branch env (hostname u) body (w\<lparr>requests := requests w @ [url]\<rparr>) = (w', Inr r)"
    by simp
  from store_branch_success [OF this] c0 b show ?thesis
    by (simp add: rotated_lookup diff_against_def)
qed

text \<open>An instance of C2: the first fetch of the day over an older snapshot.\<close>

theorem downloadSitemap_rotation_witness:
  "snd (downloadSitemap sample_env sitemap_url False
          \<lparr>kv = [js ''sitemap_current_a.com'' \<mapsto> old_body], requests = []\<rparr>)
     = Inr \<lparr>success = True, errorMsg = [], datedFile = Some (js ''sitemap_dated_a.com_20240102''),
            newUrls = [js ''https://a.com/new'']\<rparr>
   \<and> kv (fst (downloadSitemap sample_env sitemap_url False
          \<lparr>kv = [js ''sitemap_current_a.com'' \<mapsto> old_body], requests = []\<rparr>))
        (js ''sitemap_latest_a.com'') = Some old_body
   \<and> kv (fst (downloadSitemap sample_env sitemap_url False
          \<lparr>kv = [js ''sitemap_current_a.com'' \<mapsto> old_body], requests = []\<rparr>))
        (js ''sitemap_current_a.com'') = Some sample_body
   \<and> kv (fst (downloadSitemap sample_env sitemap_url False
          \<lparr>kv = [js ''sitemap_current_a.com'' \<mapsto> old_body], requests = []\<rparr>))
        (js ''sitemap_dated_a.com_20240102'') = Some sample_body
   \<and> kv (fst (downloadSitemap sample_env sitemap_url False
          \<lparr>kv = [js ''sitemap_current_a.com'' \<mapsto> old_body], requests = []\<rparr>))
        (js ''last_update_a.com'') = Some (js ''20240102'')"
proof -
  let ?w = "\<lparr>kv = [js ''sitemap_current_a.com'' \<mapsto> old_body], requests = []\<rparr>"
  let ?u = "\<lparr>hostname = js ''a.com'', pathname = js ''/sitemap.xml''\<rparr>"
  let ?r = "\<lparr>success = True, errorMsg = [], datedFile = Some (js ''sitemap_dated_a.com_20240102''),
            newUrls = [js ''https://a.com/new'']\<rparr>"
  have c: "kv ?w (js ''sitemap_current_'' @ hostname ?u) = Some old_body"
    by (simp add: js_keys)
  have ne: "old_body \<noteq> []" by (simp add: old_body_def js_def)
  have br: "False \<or> kv ?w (js ''last_update_'' @ hostname ?u) \<noteq> Some (today sample_env)"
    by (simp add: js_keys)
  have r: "snd (downloadSitemap sample_env sitemap_url False ?w) = Inr ?r"
    using ne by (simp add: sample_run sample_env_fields js_keys)
  then have run: "downloadSitemap sample_env sitemap_url False ?w
      = (fst (downloadSitemap sample_env sitemap_url False ?w), Inr ?r)"
    by (simp add: prod_eq_iff)
  from downloadSitemap_rotation [OF sample_parse_sitemap_url c ne br run] r
  show ?thesis
    by (simp add: sample_fetch_sitemap_url sample_env_fields js_keys)
qed

text \<open>
  C2 as stated fails where the \<open>current\<close> snapshot is the empty string: the fetch
  succeeds, \<open>latest\<close> is not written, and no URL is returned although the diff of the new
  body with the empty one has two.
\<close>

theorem downloadSitemap_rotation_counterexample:
  "kv \<lparr>kv = [js ''sitemap_current_a.com'' \<mapsto> []], requests = []\<rparr> (js ''sitemap_current_a.com'')
     = Some []
   \<and> snd (downloadSitemap sample_env sitemap_url False
          \<lparr>kv = [js ''sitemap_current_a.com'' \<mapsto> []], requests = []\<rparr>)
     = Inr \<lparr>success = True, errorMsg = [], datedFile = Some (js ''sitemap_dated_a.com_20240102''),
            newUrls = []\<rparr>
   \<and> kv (fst (downloadSitemap sample_env sitemap_url False
          \<lparr>kv = [js ''sitemap_current_a.com'' \<mapsto> []], requests = []\<rparr>))
        (js ''sitemap_latest_a.com'') = None
   \<and> compareSitemaps sample_body [] = [js ''https://a.com/new'', js ''https://a.com/old'']"
  by (simp add: sample_run sample_env_fields js_keys)




section \<open>The claims about the feed registry\<close>

text \<open>
  Claim C6 (registry mutation). When the registry is a list that does not hold \<open>url\<close>,
  \<open>removeFeed\<close> returns the failure "not found" and leaves the whole state as it is (no
  write, no request); and when the attempt that \<open>addFeed\<close> makes on such a \<open>url\<close> fails,
  \<open>addFeed\<close> returns that failure and the stored registry is not changed.
\<close>

theorem feed_registry_mutation:
  "(snd (getFeeds env w) = Inr (JArr xs) \<and> JStr url \<notin> set xs \<longrightarrow>
      removeFeed env url w = (w, Inr \<lparr>success = False, errorMsg = msg_not_found\<rparr>))
   \<and> (snd (getFeeds env w) = Inr (JArr xs) \<and> JStr url \<notin> set xs \<and>
      downloadSitemap env url False w = (w', Inr r) \<and> \<not> success r \<longrightarrow>
      addFeed env url w = (w', Inr r) \<and> kv w' feedsKey = kv w feedsKey)"
proof (intro conjI impI)
  assume "snd (getFeeds env w) = Inr (JArr xs) \<and> JStr url \<notin> set xs"
  then show "removeFeed env url w = (w, Inr \<lparr>success = False, errorMsg = msg_not_found\<rparr>)"
    by (simp add: removeFeed_def getFeeds_eq feeds_includes_def await_def try_catch_def
        of_result_def resolve_def)
next
  assume h: "snd (getFeeds env w) = Inr (JArr xs) \<and> JStr url \<notin> set xs \<and>
      downloadSitemap env url False w = (w', Inr r) \<and> \<not> success r"
  then show "addFeed env url w = (w', Inr r)"
    by (simp add: addFeed_def getFeeds_eq feeds_includes_def await_def try_catch_def
        of_result_def resolve_def)
  from h downloadSitemap_keeps_feedsKey [of env url False]
  show "kv w' feedsKey = kv w feedsKey"
    by (auto simp: keeps_def dest: spec [of _ w])
qed

text \<open>An instance of C6: an empty store, and a sitemap that answers 404.\<close>

theorem feed_registry_mutation_witness:
  "removeFeed sample_env sitemap_url empty_world
     = (empty_world, Inr \<lparr>success = False, errorMsg = msg_not_found\<rparr>)
   \<and> addFeed sample_env missing_url empty_world
     = (empty_world\<lparr>requests := [missing_url]\<rparr>,
        Inr \<lparr>success = False, errorMsg = msg_download_failed @ js ''HTTP 404: Not Found'',
             datedFile = None, newUrls = []\<rparr>)
   \<and> kv (empty_world\<lparr>requests := [missing_url]\<rparr>) feedsKey = None"
proof -
  have g: "snd (getFeeds sample_env empty_world) = Inr (JArr [])"
    by (simp add: sample_getFeeds_empty)
  from feed_registry_mutation [of sample_env empty_world "[]" sitemap_url] g
  have 1: "removeFeed sample_env sitemap_url empty_world
     = (empty_world, Inr \<lparr>success = False, errorMsg = msg_not_found\<rparr>)" by simp
  from feed_registry_mutation [of sample_env empty_world "[]" missing_url
      "empty_world\<lparr>requests := [missing_url]\<rparr>"
      "\<lparr>success = False, errorMsg = msg_download_failed @ js ''HTTP 404: Not Found'',
             datedFile = None, newUrls = []\<rparr>"] g sample_download_missing
  have 2: "addFeed sample_env missing_url empty_world
     = (empty_world\<lparr>requests := [missing_url]\<rparr>,
        Inr \<lparr>success = False, errorMsg = msg_download_failed @ js ''HTTP 404: Not Found'',
             datedFile = None, newUrls = []\<rparr>)
    \<and> kv (empty_world\<lparr>requests := [missing_url]\<rparr>) feedsKey = kv empty_world feedsKey"
    by simp
  from 1 2 show ?thesis by (simp add: empty_world_def)
qed

text \<open>
  Claim C8 (message of add), as amended. A successful \<open>addFeed\<close> returns the outcome of
  the attempt it made; its message is "already existed, updated" when the URL was in the
  registry, and for a new URL it is the message of the attempt when that is not empty
  (the notice of the throttle branch), and "added" when it is empty.
\<close>

theorem addFeed_message:
  assumes "snd (getFeeds env w) = Inr feeds"
    and "feeds_includes env feeds url = Inr present"
    and "addFeed env url w = (w', Inr r)"
    and "success r"
  shows "\<exists>w1 d. downloadSitemap env url False w = (w1, Inr d) \<and> success d \<and>
           r = d\<lparr>errorMsg :=
                  if present then msg_existing_updated
                  else if errorMsg d \<noteq> [] then errorMsg d else msg_added\<rparr>"
proof -
  obtain w1 d where d: "downloadSitemap env url False w = (w1, Inr d)"
    using downloadSitemap_returns [of env url False w]
    by (cases "downloadSitemap env url False w") auto
  show ?thesis
  proof (cases "success d")
    case False
    with assms d show ?thesis
      by (cases present)
        (auto simp: addFeed_def getFeeds_eq await_def try_catch_def of_result_def resolve_def)
  next
    case True
    show ?thesis
    proof (cases present)
      case True
      with assms d \<open>success d\<close> show ?thesis
        by (auto simp: addFeed_def getFeeds_eq await_def try_catch_def of_result_def resolve_def)
    next
      case False
      with assms d \<open>success d\<close> show ?thesis
        by (auto simp: addFeed_def getFeeds_eq await_def try_catch_def of_result_def
            resolve_def kv_put_def split: sum.splits option.splits)
    qed
  qed
qed

text \<open>An instance of C8: a new URL, fetched for the first time.\<close>

theorem addFeed_message_witness:
  "snd (addFeed sample_env sitemap_url empty_world)
     = Inr \<lparr>success = True, errorMsg = msg_added,
            datedFile = Some (js ''sitemap_dated_a.com_20240102''), newUrls = []\<rparr>
   \<and> (\<exists>w1 d. downloadSitemap sample_env sitemap_url False empty_world = (w1, Inr d) \<and>
         success d \<and> errorMsg d = [])"
proof -
  let ?r = "\<lparr>success = True, errorMsg = msg_added,
            datedFile = Some (js ''sitemap_dated_a.com_20240102''), newUrls = []\<rparr>"
  have g: "snd (getFeeds sample_env empty_world) = Inr (JArr [])"
    by (simp add: sample_getFeeds_empty)
  have i: "feeds_includes sample_env (JArr []) sitemap_url = Inr False"
    by (simp add: feeds_includes_def)
  have a: "addFeed sample_env sitemap_url empty_world
      = (fst (addFeed sample_env sitemap_url empty_world), Inr ?r)"
    using sample_addFeed_first by (simp add: prod_eq_iff)
  from addFeed_message [OF g i a] obtain w1 d where
    d: "downloadSitemap sample_env sitemap_url False empty_world = (w1, Inr d)" "success d"
      "?r = d\<lparr>errorMsg := if errorMsg d \<noteq> [] then errorMsg d else msg_added\<rparr>"
    by auto
  from d(1) sample_download_first have "errorMsg d = []" by simp
  with d sample_addFeed_first show ?thesis by blast
qed

text \<open>
  C8 as stated fails for a new URL whose domain was already updated today: the add
  succeeds and its message is the notice "already updated today", not "added".
\<close>

theorem addFeed_message_counterexample:
  "snd (getFeeds sample_env \<lparr>kv = [js ''last_update_a.com'' \<mapsto> js ''20240102''], requests = []\<rparr>)
     = Inr (JArr [])
   \<and> snd (addFeed sample_env sitemap_url
            \<lparr>kv = [js ''last_update_a.com'' \<mapsto> js ''20240102''], requests = []\<rparr>)
     = Inr \<lparr>success = True, errorMsg = msg_updated_today, datedFile = None, newUrls = []\<rparr>
   \<and> msg_updated_today \<noteq> msg_added"
proof -
  let ?w = "\<lparr>kv = [js ''last_update_a.com'' \<mapsto> js ''20240102''], requests = []\<rparr>"
  have g: "getFeeds sample_env ?w = (?w, Inr (JArr []))"
    by (simp add: getFeeds_def exec_simps sample_env_fields feedsKey_def js_keys)
  have d: "downloadSitemap sample_env sitemap_url False ?w
      = (?w, Inr \<lparr>success = True, errorMsg = msg_updated_today, datedFile = None, newUrls = []\<rparr>)"
    by (simp add: sample_run sample_env_fields js_keys)
  have m: "msg_updated_today \<noteq> []" "msg_updated_today \<noteq> msg_added"
    by (simp_all add: msg_updated_today_def msg_added_def)
  from g d m show ?thesis
    by (simp add: addFeed_def feeds_includes_def feeds_push_def
        await_def try_catch_def of_result_def resolve_def kv_put_def sample_env_fields)
qed

text \<open>
  Claim C9 (reading the registry), as amended. \<open>getFeeds\<close> never throws and changes
  nothing. It returns the empty list when the read is rejected, when the key is absent or
  holds the empty string, and when the stored string is not JSON. A stored string that is
  JSON is returned as parsed, whatever value it is.
\<close>

theorem getFeeds_total:
  "fst (getFeeds env w) = w
   \<and> (\<exists>feeds. snd (getFeeds env w) = Inr feeds)
   \<and> (get_error env feedsKey \<noteq> None \<or> kv w feedsKey = None \<or> kv w feedsKey = Some [] \<or>
        (\<exists>s e. kv w feedsKey = Some s \<and> json_parse env s = Inl e)
        \<longrightarrow> snd (getFeeds env w) = Inr (JArr []))
   \<and> (get_error env feedsKey = None \<and> kv w feedsKey = Some s \<and> s \<noteq> [] \<and>
        json_parse env s = Inr j
        \<longrightarrow> snd (getFeeds env w) = Inr j)"
  by (auto simp: getFeeds_def async_defs split: option.splits sum.splits)

text \<open>An instance of C9: a stored string that is not JSON, and a stored empty list.\<close>

theorem getFeeds_total_witness:
  "snd (getFeeds sample_env \<lparr>kv = [feedsKey \<mapsto> js ''not json''], requests = []\<rparr>) = Inr (JArr [])
   \<and> snd (getFeeds sample_env \<lparr>kv = [feedsKey \<mapsto> js ''[]''], requests = [js ''x'']\<rparr>) = Inr (JArr [])
   \<and> fst (getFeeds sample_env \<lparr>kv = [feedsKey \<mapsto> js ''[]''], requests = [js ''x'']\<rparr>)
       = \<lparr>kv = [feedsKey \<mapsto> js ''[]''], requests = [js ''x'']\<rparr>"
proof -
  have a: "json_parse sample_env (js ''not json'') = Inl (JsError (js ''Unexpected token''))"
    by (simp add: sample_env_def sample_json_parse_def js_def)
  have b: "json_parse sample_env (js ''[]'') = Inr (JArr [])"
    by (simp add: sample_env_def sample_json_parse_def js_def)
  have c: "get_error sample_env feedsKey = None" by (simp add: sample_env_def)
  show ?thesis
    using getFeeds_total [of sample_env "\<lparr>kv = [feedsKey \<mapsto> js ''not json''], requests = []\<rparr>" "js ''not json''" "JArr []"]
      getFeeds_total [of sample_env "\<lparr>kv = [feedsKey \<mapsto> js ''[]''], requests = [js ''x'']\<rparr>" "js ''[]''" "JArr []"]
      a b c
    by (simp add: js_def)
qed

text \<open>
  C9 as stated fails for the stored string \<open>null\<close>: it is JSON and no list, and
  \<open>getFeeds\<close> returns \<open>null\<close>, not the empty list.
\<close>

theorem getFeeds_total_counterexample:
  "kv \<lparr>kv = [feedsKey \<mapsto> js ''null''], requests = []\<rparr> feedsKey = Some (js ''null'')
   \<and> json_parse sample_env (js ''null'') = Inr JNull
   \<and> snd (getFeeds sample_env \<lparr>kv = [feedsKey \<mapsto> js ''null''], requests = []\<rparr>) = Inr JNull
   \<and> JNull \<noteq> JArr []"
  by (simp add: getFeeds_def async_defs sample_env_def sample_json_parse_def js_def)

section \<open>Properties of the keyword statistics\<close>

lemma tally_append: "tally (ks @ ks') m = tally ks' (tally ks m)"
  by (induction ks arbitrary: m) auto

lemma fold_count_segment:
  "fold (count_segment env) (filter (\<lambda>segment. length segment > 2) segs) m
     = tally (map (keyword_of env) (filter (counted_segment env) segs)) m"
  by (induction segs arbitrary: m)
    (auto simp: count_segment_def counted_segment_def kept_segment_def keyword_of_def Let_def)

lemma count_url_tally: "count_url env url m = tally (url_keywords env url) m"
  by (simp add: count_url_def url_keywords_def fold_count_segment split: sum.splits)

lemma fold_count_url: "fold (count_url env) urls m = tally (all_keywords env urls) m"
  by (induction urls arbitrary: m) (auto simp: all_keywords_def count_url_tally tally_append)

lemma map_get_set: "map_get (map_set m k v) k' = (if k' = k then Some v else map_get m k')"
  by (induction m) auto

lemma keys_map_set: "fst ` set (map_set m k v) = insert k (fst ` set m)"
proof (induction m)
  case Nil
  show ?case by simp
next
  case (Cons a m)
  then show ?case by (cases a) auto
qed

lemma distinct_map_set: "distinct (map fst m) \<Longrightarrow> distinct (map fst (map_set m k v))"
proof (induction m)
  case Nil
  show ?case by simp
next
  case (Cons a m)
  then show ?case by (cases a) (auto simp: keys_map_set)
qed

lemma map_get_tally:
  "map_get (tally ks m) k =
     (case map_get m k of
        None \<Rightarrow> if count_list ks k = 0 then None else Some (count_list ks k)
      | Some n \<Rightarrow> Some (n + count_list ks k))"
  by (induction ks arbitrary: m) (auto simp: map_get_set split: option.splits)

lemma distinct_tally: "distinct (map fst m) \<Longrightarrow> distinct (map fst (tally ks m))"
  by (induction ks arbitrary: m) (auto simp: distinct_map_set)

lemma keys_tally: "fst ` set (tally ks m) = fst ` set m \<union> set ks"
  by (induction ks arbitrary: m) (auto simp: keys_map_set)

lemma map_get_Some: "distinct (map fst m) \<Longrightarrow> (k, n) \<in> set m \<longleftrightarrow> map_get m k = Some n"
proof (induction m)
  case Nil
  show ?case by simp
next
  case (Cons a m)
  obtain k' n' where a: "a = (k', n')" by (cases a)
  with Cons.prems have "(k', n) \<notin> set m" by (auto simp: image_iff)
  with Cons a show ?case by auto
qed

lemma extractKeywordsWithCount_entries:
  "extractKeywordsWithCount env urls
     = take 10 (sort_key (\<lambda>stat. - int (count stat)) (keyword_entries env urls))"
  by (simp add: extractKeywordsWithCount_def keyword_entries_def fold_count_url)

lemma keyword_entries_iff:
  "s \<in> set (keyword_entries env urls) \<longleftrightarrow>
     keyword s \<in> set (all_keywords env urls) \<and>
     count s = count_list (all_keywords env urls) (keyword s)"
proof -
  let ?m = "tally (all_keywords env urls) []"
  have d: "distinct (map fst ?m)" by (simp add: distinct_tally)
  have "s \<in> set (keyword_entries env urls) \<longleftrightarrow> (keyword s, count s) \<in> set ?m"
    by (cases s) (auto simp: keyword_entries_def)
  also have "\<dots> \<longleftrightarrow> map_get ?m (keyword s) = Some (count s)"
    using d by (rule map_get_Some)
  also have "\<dots> \<longleftrightarrow> keyword s \<in> set (all_keywords env urls) \<and>
     count s = count_list (all_keywords env urls) (keyword s)"
    by (auto simp: map_get_tally count_list_0_iff)
  finally show ?thesis .
qed

lemma distinct_keyword_entries: "distinct (map keyword (keyword_entries env urls))"
proof -
  have "map keyword (keyword_entries env urls) = map fst (tally (all_keywords env urls) [])"
    by (simp add: keyword_entries_def comp_def case_prod_unfold)
  then show ?thesis by (simp add: distinct_tally)
qed

lemma all_keywords_origin:
  "k \<in> set (all_keywords env urls) \<Longrightarrow>
   2 < length k \<and>
   (\<exists>url u segment. url \<in> set urls \<and> parse_url env url = Inr u \<and>
     segment \<in> set (split_on 47 (pathname u)) \<and> 2 < length segment \<and>
     \<not> all_digits segment \<and> 46 \<notin> set segment \<and> \<not> is_stopword segment \<and>
     k = toLowerCase env (filter (\<lambda>c. c \<noteq> 45) segment))"
proof -
  assume "k \<in> set (all_keywords env urls)"
  then obtain url where url: "url \<in> set urls" and k: "k \<in> set (url_keywords env url)"
    by (auto simp: all_keywords_def)
  from k obtain u where u: "parse_url env url = Inr u"
    by (cases "parse_url env url") (auto simp: url_keywords_def)
  with k obtain segment where "segment \<in> set (split_on 47 (pathname u))"
    "counted_segment env segment" "k = keyword_of env segment"
    by (auto simp: url_keywords_def)
  with url u show ?thesis
    unfolding counted_segment_def kept_segment_def keyword_of_def by blast
qed

lemma map_filter_keyword:
  "map f (filter (\<lambda>x. P x \<and> Q (f x)) xs) = filter Q (map f (filter P xs))"
  by (induction xs) auto

lemma all_keywords_spec:
  "all_keywords env urls = filter (\<lambda>k. 2 < length k) (spec_keywords env urls)"
proof -
  have c: "filter (counted_segment env) xs
      = filter (\<lambda>x. kept_segment x \<and> 2 < length (keyword_of env x)) xs" for xs
    by (rule filter_cong) (simp_all add: counted_segment_def)
  have h: "url_keywords env url = filter (\<lambda>k. 2 < length k) (url_spec_keywords env url)" for url
    by (cases "parse_url env url")
      (simp_all add: url_keywords_def url_spec_keywords_def c
        map_filter_keyword [of "keyword_of env" kept_segment "\<lambda>k. 2 < length k"])
  show ?thesis
    by (induction urls) (simp_all add: all_keywords_def spec_keywords_def h)
qed

lemma all_keywords_skip:
  "all_keywords env (filter (\<lambda>url. \<not> isl (parse_url env url)) urls) = all_keywords env urls"
  by (induction urls) (auto simp: all_keywords_def url_keywords_def split: sum.splits)

lemma sorted_desc:
  "sorted_wrt (\<lambda>a b. count b \<le> count a) (sort_key (\<lambda>stat. - int (count stat)) xs)"
proof -
  have "sorted (map (\<lambda>stat. - int (count stat)) (sort_key (\<lambda>stat. - int (count stat)) xs))"
    by (rule sorted_sort_key)
  then show ?thesis by (simp add: sorted_map)
qed

lemma take_sorted_top:
  assumes "sorted_wrt (\<lambda>a b. count b \<le> count a) xs" and "t \<in> set xs" and "t \<notin> set (take n xs)"
    and "s \<in> set (take n xs)"
  shows "count t \<le> count s"
proof -
  from assms(2,3) have "t \<in> set (drop n xs)"
    by (metis Un_iff append_take_drop_id set_append)
  moreover from assms(1) have "sorted_wrt (\<lambda>a b. count b \<le> count a) (take n xs @ drop n xs)"
    by simp
  ultimately show ?thesis
    using assms(4) unfolding sorted_wrt_append by blast
qed

lemmas keyword_eval =
  extractKeywordsWithCount_def count_url_def count_segment_def all_digits_def is_stopword_def
  stopwords_def canonicalize_def ascii_lower_def sample_env_def sample_parse_url_def
  startsWith_def js_def Let_def

lemma sample_keywords:
  "extractKeywordsWithCount sample_env
     [js ''https://a.com/tech-news/2024/'', js ''https://a.com/tech-news/ai/'']
   = [\<lparr>keyword = js ''technews'', count = 2\<rparr>]"
  by (simp add: keyword_eval)

lemma sample_eleven:
  "extractKeywordsWithCount sample_env [eleven_url, js ''not a url'']
   = [\<lparr>keyword = js ''aaa'', count = 2\<rparr>, \<lparr>keyword = js ''bbb'', count = 1\<rparr>,
      \<lparr>keyword = js ''ccc'', count = 1\<rparr>, \<lparr>keyword = js ''ddd'', count = 1\<rparr>,
      \<lparr>keyword = js ''eee'', count = 1\<rparr>, \<lparr>keyword = js ''fff'', count = 1\<rparr>,
      \<lparr>keyword = js ''ggg'', count = 1\<rparr>, \<lparr>keyword = js ''hhh'', count = 1\<rparr>,
      \<lparr>keyword = js ''iii'', count = 1\<rparr>, \<lparr>keyword = js ''jjj'', count = 1\<rparr>]"
  by (simp add: keyword_eval eleven_url_def)

lemma sample_eleven_keywords:
  "all_keywords sample_env [eleven_url, js ''not a url'']
   = [js ''aaa'', js ''bbb'', js ''ccc'', js ''ddd'', js ''eee'', js ''fff'', js ''ggg'',
      js ''hhh'', js ''iii'', js ''jjj'', js ''kkk'', js ''aaa'']"
  by (simp add: all_keywords_def url_keywords_def counted_segment_def kept_segment_def
      keyword_of_def keyword_eval eleven_url_def)

text \<open>
  Claim C7 (keyword statistics), as amended. \<open>extractKeywordsWithCount\<close> returns at most
  ten entries, in descending order of count, with pairwise distinct keywords. The keywords
  it counts are those that the specification counts (the lower-cased, hyphen-stripped
  forms of the path segments, split on \<open>/\<close>, that are longer than two characters, not
  purely numeric, without a \<open>.\<close> and not a stopword) and that are themselves longer than
  two characters. The count of an entry is the number of occurrences of its keyword among
  them, and it is at least one. Every counted keyword is returned unless ten entries are
  returned already, and a keyword that is left out occurs no more often than any returned
  one. URLs that do not parse are skipped. For the two URLs of the specification's
  example, \<open>technews\<close> is counted twice and \<open>2024\<close> does not appear.
\<close>

theorem extractKeywordsWithCount_stats:
  "length (extractKeywordsWithCount env urls) \<le> 10
   \<and> sorted_wrt (\<lambda>a b. count b \<le> count a) (extractKeywordsWithCount env urls)
   \<and> distinct (map keyword (extractKeywordsWithCount env urls))
   \<and> all_keywords env urls = filter (\<lambda>k. 2 < length k) (spec_keywords env urls)
   \<and> (s \<in> set (extractKeywordsWithCount env urls) \<longrightarrow>
        count s = count_list (all_keywords env urls) (keyword s) \<and> 1 \<le> count s \<and>
        2 < length (keyword s) \<and>
        (\<exists>url u segment. url \<in> set urls \<and> parse_url env url = Inr u \<and>
           segment \<in> set (split_on 47 (pathname u)) \<and> 2 < length segment \<and>
           \<not> all_digits segment \<and> 46 \<notin> set segment \<and> \<not> is_stopword segment \<and>
           keyword s = toLowerCase env (filter (\<lambda>c. c \<noteq> 45) segment)))
   \<and> (k \<in> set (all_keywords env urls) \<longrightarrow>
        k \<in> keyword ` set (extractKeywordsWithCount env urls) \<or>
        length (extractKeywordsWithCount env urls) = 10)
   \<and> (k \<in> set (all_keywords env urls) \<and>
        k \<notin> keyword ` set (extractKeywordsWithCount env urls) \<longrightarrow>
        (\<forall>t\<in>set (extractKeywordsWithCount env urls).
           count_list (all_keywords env urls) k \<le> count t))
   \<and> extractKeywordsWithCount env (filter (\<lambda>url. \<not> isl (parse_url env url)) urls)
        = extractKeywordsWithCount env urls
   \<and> extractKeywordsWithCount sample_env
        [js ''https://a.com/tech-news/2024/'', js ''https://a.com/tech-news/ai/'']
        = [\<lparr>keyword = js ''technews'', count = 2\<rparr>]"
proof -
  let ?f = "\<lambda>stat. - int (count stat)"
  let ?xs = "sort_key ?f (keyword_entries env urls)"
  let ?R = "extractKeywordsWithCount env urls"
  have R: "?R = take 10 ?xs" by (rule extractKeywordsWithCount_entries)
  have sorted: "sorted_wrt (\<lambda>a b. count b \<le> count a) ?xs" by (rule sorted_desc)
  have 1: "length ?R \<le> 10" by (simp add: R)
  have 2: "sorted_wrt (\<lambda>a b. count b \<le> count a) ?R"
    unfolding R using sorted by (rule sorted_wrt_take)
  have "distinct (map keyword ?xs)"
    using distinct_keyword_entries [of env urls] by (simp add: distinct_map inj_on_def)
  then have 3: "distinct (map keyword ?R)"
    unfolding R by (simp add: take_map [symmetric])
  have 4: "count s = count_list (all_keywords env urls) (keyword s) \<and> 1 \<le> count s \<and>
        2 < length (keyword s) \<and>
        (\<exists>url u segment. url \<in> set urls \<and> parse_url env url = Inr u \<and>
           segment \<in> set (split_on 47 (pathname u)) \<and> 2 < length segment \<and>
           \<not> all_digits segment \<and> 46 \<notin> set segment \<and> \<not> is_stopword segment \<and>
           keyword s = toLowerCase env (filter (\<lambda>c. c \<noteq> 45) segment))"
    if "s \<in> set ?R"
  proof -
    from that have "s \<in> set (keyword_entries env urls)"
      unfolding R by (auto dest: in_set_takeD)
    then have k: "keyword s \<in> set (all_keywords env urls)"
      and c: "count s = count_list (all_keywords env urls) (keyword s)"
      by (simp_all add: keyword_entries_iff)
    from k have "count_list (all_keywords env urls) (keyword s) \<noteq> 0"
      by (simp add: count_list_0_iff)
    with c have "1 \<le> count s" by simp
    with c all_keywords_origin [OF k] show ?thesis by simp
  qed
  have 7: "k \<in> keyword ` set ?R \<or> length ?R = 10" if k: "k \<in> set (all_keywords env urls)"
  proof (cases "length ?xs \<le> 10")
    case True
    let ?e = "\<lparr>keyword = k, count = count_list (all_keywords env urls) k\<rparr>"
    from k have "?e \<in> set (keyword_entries env urls)"
      by (simp add: keyword_entries_iff)
    with True have "?e \<in> set ?R" unfolding R by simp
    then have "keyword ?e \<in> keyword ` set ?R" by (rule imageI)
    then show ?thesis by simp
  next
    case False
    then show ?thesis unfolding R by simp
  qed
  have 5: "\<forall>t\<in>set ?R. count_list (all_keywords env urls) k \<le> count t"
    if "k \<in> set (all_keywords env urls) \<and> k \<notin> keyword ` set ?R"
  proof
    fix t assume t: "t \<in> set ?R"
    let ?e = "\<lparr>keyword = k, count = count_list (all_keywords env urls) k\<rparr>"
    from that have "?e \<in> set (keyword_entries env urls)"
      by (simp add: keyword_entries_iff)
    then have "?e \<in> set ?xs" by simp
    moreover from that have "?e \<notin> set (take 10 ?xs)"
      unfolding R by (metis KeywordStat.select_convs(1) image_eqI)
    ultimately have "count ?e \<le> count t"
      using sorted t unfolding R by (intro take_sorted_top)
    then show "count_list (all_keywords env urls) k \<le> count t" by simp
  qed
  have "keyword_entries env (filter (\<lambda>url. \<not> isl (parse_url env url)) urls)
      = keyword_entries env urls"
    by (simp add: keyword_entries_def all_keywords_skip)
  then have 6: "extractKeywordsWithCount env (filter (\<lambda>url. \<not> isl (parse_url env url)) urls) = ?R"
    by (simp add: extractKeywordsWithCount_entries)
  note 8 = all_keywords_spec [of env urls]
  from 1 2 3 4 5 6 7 8 sample_keywords show ?thesis by blast
qed

text \<open>An instance: eleven keywords, one of them twice, and a string that is no URL.\<close>

theorem extractKeywordsWithCount_stats_witness:
  "extractKeywordsWithCount sample_env [eleven_url, js ''not a url'']
   = [\<lparr>keyword = js ''aaa'', count = 2\<rparr>, \<lparr>keyword = js ''bbb'', count = 1\<rparr>,
      \<lparr>keyword = js ''ccc'', count = 1\<rparr>, \<lparr>keyword = js ''ddd'', count = 1\<rparr>,
      \<lparr>keyword = js ''eee'', count = 1\<rparr>, \<lparr>keyword = js ''fff'', count = 1\<rparr>,
      \<lparr>keyword = js ''ggg'', count = 1\<rparr>, \<lparr>keyword = js ''hhh'', count = 1\<rparr>,
      \<lparr>keyword = js ''iii'', count = 1\<rparr>, \<lparr>keyword = js ''jjj'', count = 1\<rparr>]
   \<and> count_list (all_keywords sample_env [eleven_url, js ''not a url'']) (js ''aaa'') = 2
   \<and> js ''kkk'' \<in> set (all_keywords sample_env [eleven_url, js ''not a url''])
   \<and> count_list (all_keywords sample_env [eleven_url, js ''not a url'']) (js ''kkk'') \<le> 1
   \<and> extractKeywordsWithCount sample_env [eleven_url] 
       = extractKeywordsWithCount sample_env [eleven_url, js ''not a url'']"
proof -
  let ?urls = "[eleven_url, js ''not a url'']"
  let ?s = "\<lparr>keyword = js ''aaa'', count = 2\<rparr>"
  let ?t = "\<lparr>keyword = js ''jjj'', count = 1\<rparr>"
  note inst = extractKeywordsWithCount_stats [of sample_env ?urls ?s "js ''kkk''"]
  have s: "?s \<in> set (extractKeywordsWithCount sample_env ?urls)"
    and t: "?t \<in> set (extractKeywordsWithCount sample_env ?urls)"
    by (simp_all add: sample_eleven)
  have k: "js ''kkk'' \<in> set (all_keywords sample_env ?urls)"
    by (simp add: sample_eleven_keywords)
  have nk: "js ''kkk'' \<notin> keyword ` set (extractKeywordsWithCount sample_env ?urls)"
    by (simp add: sample_eleven js_eq_iff)
  have f: "filter (\<lambda>url. \<not> isl (parse_url sample_env url)) ?urls = [eleven_url]"
    by (simp add: sample_env_def sample_parse_url_def startsWith_def js_def eleven_url_def)
  from inst s have 1: "count ?s = count_list (all_keywords sample_env ?urls) (keyword ?s)"
    by blast
  from inst k nk t have 2: "count_list (all_keywords sample_env ?urls) (js ''kkk'') \<le> count ?t"
    by blast
  from inst have 3: "extractKeywordsWithCount sample_env
      (filter (\<lambda>url. \<not> isl (parse_url sample_env url)) ?urls)
      = extractKeywordsWithCount sample_env ?urls" by blast
  from 1 2 3 k show ?thesis
    unfolding f by (simp add: sample_eleven)
qed

text \<open>
  C7 as stated fails at a URL whose path holds the segment \<open>a-b\<close> twice: the segment
  passes the four conditions, so its keyword \<open>ab\<close> is to be counted twice, and the
  program returns no entry for it.
\<close>

theorem extractKeywordsWithCount_stats_counterexample:
  "extractKeywordsWithCount sample_env [short_keyword_url]
     = [\<lparr>keyword = js ''xyz'', count = 1\<rparr>]
   \<and> spec_keywords sample_env [short_keyword_url] = [js ''ab'', js ''ab'', js ''xyz'']
   \<and> kept_segment (js ''a-b'')
   \<and> js ''ab'' \<notin> keyword ` set (extractKeywordsWithCount sample_env [short_keyword_url])"
proof -
  have 1: "extractKeywordsWithCount sample_env [short_keyword_url]
     = [\<lparr>keyword = js ''xyz'', count = 1\<rparr>]"
    by (simp add: keyword_eval short_keyword_url_def)
  have 2: "spec_keywords sample_env [short_keyword_url] = [js ''ab'', js ''ab'', js ''xyz'']"
    by (simp add: spec_keywords_def url_spec_keywords_def kept_segment_def keyword_of_def
        keyword_eval short_keyword_url_def)
  have 3: "kept_segment (js ''a-b'')"
    by (simp add: kept_segment_def keyword_eval)
  from 1 2 3 show ?thesis by (simp add: js_eq_iff)
qed

end
